theory Spec2Isabelle
  imports Complex_Main "HOL-Library.Word"
begin

section \<open>Data model (src/types.ts)\<close>

text \<open>
  \<^verbatim>\<open>BingoCell\<close> and \<^verbatim>\<open>BingoGame\<close> of \<^verbatim>\<open>src/types.ts\<close>. An optional field
  (\<^verbatim>\<open>photos?\<close>, \<^verbatim>\<open>completedAt?\<close>, \<^verbatim>\<open>theme?\<close>) is an \<open>option\<close>, with \<open>None\<close> for
  \<^verbatim>\<open>undefined\<close>. Timestamps are the millisecond readings of \<^verbatim>\<open>Date.now()\<close>, the grid
  dimension is a natural number. The fields \<^verbatim>\<open>id\<close>, \<^verbatim>\<open>text\<close> and \<^verbatim>\<open>size\<close> carry a
  prefix because the bare names are taken in HOL. The game record is polymorphic in its
  cells, since the loader (\<^verbatim>\<open>parsedGames: any\<close>) reads games whose cells still have the
  older shape.
\<close>

record BingoCell =
  cell_id :: string
  cell_text :: string
  photos :: "string list option"
  completedAt :: "nat option"

record 'c Game =
  game_id :: string
  title :: string
  game_size :: nat
  cells :: "'c list"
  createdAt :: nat
  theme :: "string option"

type_synonym BingoGame = "BingoCell Game"

section \<open>Win-Line Evaluator (src/components/BingoBoard.tsx, lines 27-71)\<close>

text \<open>
  The test \<^verbatim>\<open>c.photos && c.photos.length > 0\<close> that the evaluator, the grid and the
  dashboard all use: an absent list and an empty list are both incomplete.
\<close>

definition hasPhotos :: "BingoCell \<Rightarrow> bool" where
  "hasPhotos c = (case photos c of None \<Rightarrow> False | Some ps \<Rightarrow> length ps > 0)"

text \<open>
  \<^verbatim>\<open>game.cells.map((c, i) => hasPhotos ? i : -1).filter(i => i !== -1)\<close>: the indices
  of the completed cells in increasing order; the sentinel \<^verbatim>\<open>-1\<close> of the source only
  marks the positions that the filter drops again.
\<close>

definition completedList :: "BingoGame \<Rightarrow> nat list" where
  "completedList g = filter (\<lambda>i. hasPhotos (cells g ! i)) [0..<length (cells g)]"

definition completedIndices :: "BingoGame \<Rightarrow> nat set" where
  "completedIndices g = set (completedList g)"

text \<open>
  \<^verbatim>\<open>checkLine\<close>: when every index of the line is completed, each index gets the type
  appended to its entry of the status map unless it is there already
  (\<^verbatim>\<open>status.get(i) || []\<close> reads a missing entry as the empty list).
\<close>

definition tagIndex :: "string \<Rightarrow> nat \<Rightarrow> (nat \<rightharpoonup> string list) \<Rightarrow> (nat \<rightharpoonup> string list)" where
  "tagIndex type i status =
     (let current = (case status i of None \<Rightarrow> [] | Some ts \<Rightarrow> ts)
      in status(i \<mapsto> (if type \<in> set current then current else current @ [type])))"

definition checkLine ::
  "nat set \<Rightarrow> nat list \<Rightarrow> string \<Rightarrow> (nat \<rightharpoonup> string list) \<Rightarrow> (nat \<rightharpoonup> string list) \<times> bool" where
  "checkLine completed indices type status =
     (if list_all (\<lambda>i. i \<in> completed) indices
      then (fold (tagIndex type) indices status, True)
      else (status, False))"

text \<open>The index lists built with \<^verbatim>\<open>Array.from({ length: size }, ...)\<close>.\<close>

definition rowIndices :: "nat \<Rightarrow> nat \<Rightarrow> nat list" where
  "rowIndices n r = map (\<lambda>c. r * n + c) [0..<n]"

definition colIndices :: "nat \<Rightarrow> nat \<Rightarrow> nat list" where
  "colIndices n c = map (\<lambda>r. r * n + c) [0..<n]"

definition d1 :: "nat \<Rightarrow> nat list" where
  "d1 n = map (\<lambda>i. i * n + i) [0..<n]"

definition d2 :: "nat \<Rightarrow> nat list" where
  "d2 n = map (\<lambda>i. (i + 1) * n - (i + 1)) [0..<n]"

text \<open>
  The body of the \<^verbatim>\<open>useMemo\<close>: rows, then columns, then the two diagonals, each
  through \<^verbatim>\<open>checkLine\<close> on the same status map; the result is the pair
  \<^verbatim>\<open>{ winStatus, isFullHouse }\<close>.
\<close>

definition isFull :: "BingoGame \<Rightarrow> bool" where
  "isFull g = (length (cells g) > 0 \<and> card (completedIndices g) = length (cells g))"

definition winLines :: "nat \<Rightarrow> nat set \<Rightarrow> (nat \<rightharpoonup> string list)" where
  "winLines n completed =
     (let s0 = Map.empty;
          s1 = fold (\<lambda>r st. fst (checkLine completed (rowIndices n r) ''row'' st)) [0..<n] s0;
          s2 = fold (\<lambda>c st. fst (checkLine completed (colIndices n c) ''col'' st)) [0..<n] s1;
          s3 = fst (checkLine completed (d1 n) ''diag'' s2);
          s4 = fst (checkLine completed (d2 n) ''diag'' s3)
      in s4)"

definition winStatus :: "BingoGame \<Rightarrow> (nat \<rightharpoonup> string list)" where
  "winStatus g = winLines (game_size g) (completedIndices g)"

definition isFullHouse :: "BingoGame \<Rightarrow> bool" where
  "isFullHouse g = isFull g"

section \<open>Photo operations (src/components/BingoBoard.tsx, lines 140-184)\<close>

text \<open>
  \<^verbatim>\<open>Array.prototype.splice(start, 1)\<close> on a copy of the list, for an integer
  \<^verbatim>\<open>start\<close>: a negative start counts from the end and is clamped to 0, a start beyond
  the end is clamped to the length, and at most one element is deleted from there.
\<close>

definition splice1 :: "'a list \<Rightarrow> int \<Rightarrow> 'a list" where
  "splice1 xs start =
     (let len = int (length xs);
          actualStart = (if start < 0 then max (len + start) 0 else min start len);
          k = nat actualStart
      in take k xs @ drop (k + 1) xs)"

text \<open>The object a matching cell is replaced by in \<^verbatim>\<open>addPhoto\<close> and \<^verbatim>\<open>removePhoto\<close>.\<close>

definition addPhotoCell :: "string \<Rightarrow> nat \<Rightarrow> BingoCell \<Rightarrow> BingoCell" where
  "addPhotoCell photoUrl now c =
     (let currentPhotos = (case photos c of None \<Rightarrow> [] | Some ps \<Rightarrow> ps)
      in c\<lparr>photos := Some (currentPhotos @ [photoUrl]), completedAt := Some now\<rparr>)"

definition removePhotoCell :: "int \<Rightarrow> BingoCell \<Rightarrow> BingoCell" where
  "removePhotoCell photoIndex c =
     (case photos c of
        None \<Rightarrow> c
      | Some ps \<Rightarrow>
          (let newPhotos = splice1 ps photoIndex
           in c\<lparr>photos := Some newPhotos,
                completedAt := (if length newPhotos > 0 then completedAt c else None)\<rparr>))"

text \<open>
  \<^verbatim>\<open>updateGameState(newCells, triggerConfetti)\<close>: the game handed to \<^verbatim>\<open>onUpdateGame\<close>,
  and whether \<^verbatim>\<open>setShowConfetti(true)\<close> is called.
\<close>

definition updateGameState :: "BingoGame \<Rightarrow> BingoCell list \<Rightarrow> bool \<Rightarrow> BingoGame \<times> bool" where
  "updateGameState game newCells triggerConfetti =
     (game\<lparr>cells := newCells\<rparr>, triggerConfetti)"

definition addPhoto :: "BingoGame \<Rightarrow> string \<Rightarrow> string \<Rightarrow> nat \<Rightarrow> BingoGame \<times> bool" where
  "addPhoto game cellId photoUrl now =
     (let newCells = map (\<lambda>c. if cell_id c = cellId then addPhotoCell photoUrl now c else c)
                         (cells game)
      in updateGameState game newCells True)"

definition removePhoto :: "BingoGame \<Rightarrow> string \<Rightarrow> int \<Rightarrow> BingoGame \<times> bool" where
  "removePhoto game cellId photoIndex =
     (let newCells = map (\<lambda>c. if cell_id c = cellId then removePhotoCell photoIndex c else c)
                         (cells game)
      in updateGameState game newCells False)"

text \<open>
  A run of attachments (photo and clock reading) and a run of removals on one cell, in
  the order the user makes them.
\<close>

definition attachRun :: "(string \<times> nat) list \<Rightarrow> BingoCell \<Rightarrow> BingoCell" where
  "attachRun ps c = fold (\<lambda>(photoUrl, now). addPhotoCell photoUrl now) ps c"

definition removeRun :: "int list \<Rightarrow> BingoCell \<Rightarrow> BingoCell" where
  "removeRun idxs c = fold removePhotoCell idxs c"

text \<open>
  The removals the gallery offers: each index is a position of the list as it is at that
  moment, and the run goes on until the list of \<open>n\<close> photos is used up.
\<close>

fun validRemovals :: "nat \<Rightarrow> int list \<Rightarrow> bool" where
  "validRemovals n [] = (n = 0)"
| "validRemovals n (i # idxs) = (0 \<le> i \<and> i < int n \<and> validRemovals (n - 1) idxs)"

definition photoCount :: "BingoCell \<Rightarrow> nat" where
  "photoCount c = (case photos c of None \<Rightarrow> 0 | Some ps \<Rightarrow> length ps)"

text \<open>
  The same runs through the board: \<^verbatim>\<open>addPhoto\<close> and \<^verbatim>\<open>removePhoto\<close> called again and
  again for one cell id, each on the game the previous call handed to \<^verbatim>\<open>onUpdateGame\<close>.
\<close>

definition attachPhotos :: "(string \<times> nat) list \<Rightarrow> string \<Rightarrow> BingoGame \<Rightarrow> BingoGame" where
  "attachPhotos ps cellId game = fold (\<lambda>(photoUrl, now) g. fst (addPhoto g cellId photoUrl now)) ps game"

definition removePhotos :: "int list \<Rightarrow> string \<Rightarrow> BingoGame \<Rightarrow> BingoGame" where
  "removePhotos idxs cellId game = fold (\<lambda>i g. fst (removePhoto g cellId i)) idxs game"

section \<open>Load-time migration (src/App.tsx, lines 37-51)\<close>

text \<open>
  A persisted cell may still have the older shape, with a single \<^verbatim>\<open>photoUrl\<close>. The new
  list is \<^verbatim>\<open>cell.photos || (cell.photoUrl ? [cell.photoUrl] : [])\<close>: an array is truthy
  even when empty, a string is truthy when it is not the empty string. The spread
  \<^verbatim>\<open>...cell\<close> keeps every other field.
\<close>

record LegacyCell = BingoCell +
  photoUrl :: "string option"

definition migrateCell :: "LegacyCell \<Rightarrow> LegacyCell" where
  "migrateCell cell =
     cell\<lparr>photos := Some
       (case photos cell of
          Some ps \<Rightarrow> ps
        | None \<Rightarrow>
            (case photoUrl cell of
               Some u \<Rightarrow> (if u \<noteq> [] then [u] else [])
             | None \<Rightarrow> []))\<rparr>"

definition migrateGames :: "LegacyCell Game list \<Rightarrow> LegacyCell Game list" where
  "migrateGames parsedGames =
     map (\<lambda>game. game\<lparr>cells := map migrateCell (cells game)\<rparr>) parsedGames"

section \<open>Suggestions (src/services/geminiService.ts)\<close>

text \<open>\<^verbatim>\<open>Number.prototype.toString\<close> on a natural number, as the template strings use it.\<close>

definition digitChar :: "nat \<Rightarrow> char" where
  "digitChar d = ''0123456789'' ! d"

fun showNat :: "nat \<Rightarrow> string" where
  "showNat n = (if n < 10 then [digitChar n] else showNat (n div 10) @ [digitChar (n mod 10)])"

declare showNat.simps [simp del]

text \<open>
  What the provider call and \<^verbatim>\<open>JSON.parse\<close> can come to: the request throws, the
  response has no text, the text does not parse, or it parses to the array of strings
  that the response schema and the cast \<^verbatim>\<open>as string[]\<close> declare.
\<close>

datatype provider_outcome =
    RequestFailed
  | NoResponseText
  | Unparsable
  | Items "string list"

definition bonusItems :: "nat \<Rightarrow> string list" where
  "bonusItems needed = map (\<lambda>i. ''Bonus Item '' @ showNat (i + 1)) [0..<needed]"

definition fallbackItems :: "string \<Rightarrow> nat \<Rightarrow> string list" where
  "fallbackItems topic count =
     map (\<lambda>i. ''Task '' @ showNat (i + 1) @ '' ('' @ topic @ '')'') [0..<count]"

definition generateBingoItems :: "string \<Rightarrow> nat \<Rightarrow> provider_outcome \<Rightarrow> string list" where
  "generateBingoItems topic count outcome =
     (case outcome of
        Items items \<Rightarrow>
          (let items' = (if length items < count
                         then items @ bonusItems (count - length items) else items)
           in take count items')
      | _ \<Rightarrow> fallbackItems topic count)"

section \<open>Board creation (src/components/CreateGame.tsx, src/App.tsx lines 86-103)\<close>

record CreateGameParams =
  p_title :: string
  p_size :: nat
  p_topic :: "string option"
  customItems :: "string list option"

definition HOLIDAY_TASKS :: "string list" where
  "HOLIDAY_TASKS =
     [''Visit the Christmas Wonderland or Distillery District'',
      ''Build a gingerbread house'',
      ''Light a winter candle'',
      ''Dress up a pet in holiday costume'',
      ''Set up and decorate Christmas tree'',
      ''Go for lunch/dinner with colleagues'',
      ''Share a holiday tradition with a co-worker'',
      ''Visit the Scotia Plaza Christmas tree'',
      ''Set up a Christmas village / train'',
      ''Donate to charity (clothes, toy, etc.)'',
      ''Watch a holiday movie'',
      ''Drive/walk around to see holiday lights'',
      ''Wrap a holiday gift'',
      ''Bake holiday-themed cookies'',
      ''Write a letter to Santa'',
      ''Go all out on holiday lights'',
      ''Attend a holiday concert, play, or virtual event'',
      ''Go ice skating or sledding'',
      ''Write or make holiday cards'',
      ''Go for a run or walk outdoors'',
      ''Enjoy a hot chocolate or festive drink with colleagues'',
      ''Create and listen to a holiday playlist'',
      ''Take a festive photo'',
      ''Make or cook a holiday recipe'',
      ''Wear an ugly sweater'']"

text \<open>
  \<^verbatim>\<open>handleSubmit\<close>: nothing is created for an empty title; with a topic the items come
  from \<^verbatim>\<open>generateBingoItems(topic, size * size)\<close>, without one they are the generic
  \<^verbatim>\<open>Task i\<close>. The result is the argument of \<^verbatim>\<open>onCreate\<close>, if it is called.
\<close>

definition handleSubmit ::
  "string \<Rightarrow> nat \<Rightarrow> string \<Rightarrow> provider_outcome \<Rightarrow> CreateGameParams option" where
  "handleSubmit title_in size_in topic outcome =
     (if title_in = [] then None
      else if topic \<noteq> [] then
        (let totalItems = size_in * size_in;
             items = generateBingoItems topic totalItems outcome
         in Some \<lparr>p_title = title_in, p_size = size_in, p_topic = Some topic,
                  customItems = Some items\<rparr>)
      else
        (let items = map (\<lambda>i. ''Task '' @ showNat (i + 1)) [0..<size_in * size_in]
         in Some \<lparr>p_title = title_in, p_size = size_in, p_topic = None,
                  customItems = Some items\<rparr>))"

definition loadHolidayTemplate :: CreateGameParams where
  "loadHolidayTemplate =
     \<lparr>p_title = ''Holiday Bingo Challenge'', p_size = 5, p_topic = Some ''Holiday Fun'',
      customItems = Some HOLIDAY_TASKS\<rparr>"

text \<open>
  \<^verbatim>\<open>handleCreateGame\<close>. Every \<^verbatim>\<open>Date.now()\<close> is a reading of the clock: \<open>clock 0\<close> for
  the id, \<open>clock 1\<close> for \<^verbatim>\<open>createdAt\<close>, \<open>clock (2 + idx)\<close> inside the id of cell \<open>idx\<close>.
\<close>

definition handleCreateGame :: "CreateGameParams \<Rightarrow> (nat \<Rightarrow> nat) \<Rightarrow> BingoGame" where
  "handleCreateGame params clock =
     \<lparr>game_id = showNat (clock 0),
      title = p_title params,
      game_size = p_size params,
      cells = map (\<lambda>(cellText, idx).
                    \<lparr>cell_id = ''cell-'' @ showNat (clock (2 + idx)) @ ''-'' @ showNat idx,
                     cell_text = cellText, photos = Some [], completedAt = None\<rparr>)
                  (let items = (case customItems params of None \<Rightarrow> [] | Some xs \<Rightarrow> xs)
                   in zip items [0..<length items]),
      createdAt = clock 1,
      theme = p_topic params\<rparr>"

section \<open>Share links (src/components/BingoBoard.tsx lines 186-200, src/App.tsx lines 22-31)\<close>

text \<open>
  \<^verbatim>\<open>handleShare\<close> turns a copy of the game into text with \<^verbatim>\<open>JSON.stringify\<close>, then
  \<^verbatim>\<open>encodeURIComponent\<close>, then \<^verbatim>\<open>btoa\<close>; the loader undoes the three steps with
  \<^verbatim>\<open>atob\<close>, \<^verbatim>\<open>decodeURIComponent\<close> and \<^verbatim>\<open>JSON.parse\<close>. The six functions belong to the
  platform; they are written out here as their standards define them, on strings that
  are the UTF-8 bytes of the text.
\<close>

subsection \<open>JSON values and \<^verbatim>\<open>JSON.stringify\<close>\<close>

text \<open>
  The values that occur: a number is an integer (a grid size, a clock reading). An object
  keeps its members in order. A property that is \<^verbatim>\<open>undefined\<close> has no member, as
  \<^verbatim>\<open>JSON.stringify\<close> leaves it out.
\<close>

datatype json =
    JNull
  | JBool bool
  | JNum int
  | JStr string
  | JArr "json list"
  | JObj "(string \<times> json) list"

definition showInt :: "int \<Rightarrow> string" where
  "showInt i = (if i < 0 then CHR ''-'' # showNat (nat (- i)) else showNat (nat i))"

definition hexLower :: "nat \<Rightarrow> char" where
  "hexLower d = ''0123456789abcdef'' ! d"

text \<open>
  \<^verbatim>\<open>QuoteJSONString\<close>: the quote, the backslash and the control characters are escaped,
  every other character stands for itself.
\<close>

definition quoteChar :: "char \<Rightarrow> string" where
  "quoteChar c =
     (if c = CHR 0x08 then [CHR 0x5C, CHR ''b'']
      else if c = CHR 0x09 then [CHR 0x5C, CHR ''t'']
      else if c = CHR 0x0A then [CHR 0x5C, CHR ''n'']
      else if c = CHR 0x0C then [CHR 0x5C, CHR ''f'']
      else if c = CHR 0x0D then [CHR 0x5C, CHR ''r'']
      else if c = CHR 0x22 then [CHR 0x5C, CHR 0x22]
      else if c = CHR 0x5C then [CHR 0x5C, CHR 0x5C]
      else if (of_char c :: nat) < 0x20
        then [CHR 0x5C, CHR ''u'', CHR ''0'', CHR ''0'',
              hexLower (of_char c div 16), hexLower (of_char c mod 16)]
      else [c])"

definition quoteJSONString :: "string \<Rightarrow> string" where
  "quoteJSONString s = CHR 0x22 # concat (map quoteChar s) @ [CHR 0x22]"

fun commaSep :: "string list \<Rightarrow> string" where
  "commaSep [] = []"
| "commaSep [x] = x"
| "commaSep (x # y # ys) = x @ CHR '','' # commaSep (y # ys)"

fun stringify :: "json \<Rightarrow> string" where
  "stringify JNull = ''null''"
| "stringify (JBool b) = (if b then ''true'' else ''false'')"
| "stringify (JNum i) = showInt i"
| "stringify (JStr s) = quoteJSONString s"
| "stringify (JArr vs) = CHR ''['' # commaSep (map stringify vs) @ '']''"
| "stringify (JObj ms) =
     CHR ''{'' # commaSep (map (\<lambda>(k, v). quoteJSONString k @ CHR '':'' # stringify v) ms) @ ''}''"

subsection \<open>\<^verbatim>\<open>JSON.parse\<close>\<close>

text \<open>
  A recursive-descent parser of the JSON grammar for these values, with white space
  between the tokens. A number with a fraction or an exponent and an escape of a
  surrogate have no value here and are rejected. The fuel bounds the nesting; the length
  of the text is always enough, which \<open>JSON_parse_stringify\<close> below confirms for every
  text that \<open>stringify\<close> writes.
\<close>

definition isWs :: "char \<Rightarrow> bool" where
  "isWs c = (c = CHR '' '' \<or> c = CHR 0x09 \<or> c = CHR 0x0A \<or> c = CHR 0x0D)"

definition skipWs :: "string \<Rightarrow> string" where
  "skipWs s = dropWhile isWs s"

definition isDigit :: "char \<Rightarrow> bool" where
  "isDigit c = (48 \<le> (of_char c :: nat) \<and> (of_char c :: nat) \<le> 57)"

definition digitVal :: "char \<Rightarrow> nat" where
  "digitVal c = of_char c - 48"

definition hexVal :: "char \<Rightarrow> nat option" where
  "hexVal c =
     (let n = (of_char c :: nat)
      in if 48 \<le> n \<and> n \<le> 57 then Some (n - 48)
         else if 97 \<le> n \<and> n \<le> 102 then Some (n - 87)
         else if 65 \<le> n \<and> n \<le> 70 then Some (n - 55)
         else None)"

definition utf8 :: "nat \<Rightarrow> string option" where
  "utf8 cp =
     (if cp < 0x80 then Some [char_of cp]
      else if cp < 0x800 then Some [char_of (0xC0 + cp div 64), char_of (0x80 + cp mod 64)]
      else if 0xD800 \<le> cp \<and> cp < 0xE000 then None
      else Some [char_of (0xE0 + cp div 4096), char_of (0x80 + cp div 64 mod 64),
                 char_of (0x80 + cp mod 64)])"

definition unescape :: "char \<Rightarrow> char option" where
  "unescape e =
     (if e = CHR 0x22 then Some (CHR 0x22)
      else if e = CHR 0x5C then Some (CHR 0x5C)
      else if e = CHR ''/'' then Some (CHR ''/'')
      else if e = CHR ''b'' then Some (CHR 0x08)
      else if e = CHR ''f'' then Some (CHR 0x0C)
      else if e = CHR ''n'' then Some (CHR 0x0A)
      else if e = CHR ''r'' then Some (CHR 0x0D)
      else if e = CHR ''t'' then Some (CHR 0x09)
      else None)"

definition consTo :: "string \<Rightarrow> (string \<times> string) option \<Rightarrow> (string \<times> string) option" where
  "consTo cs res = map_option (\<lambda>(s, rest). (cs @ s, rest)) res"

fun parseChars :: "string \<Rightarrow> (string \<times> string) option" where
  "parseChars [] = None"
| "parseChars (c # r) =
     (if c = CHR 0x22 then Some ([], r)
      else if c = CHR 0x5C then
        (case r of
           [] \<Rightarrow> None
         | e # r' \<Rightarrow>
             (if e = CHR ''u'' then
                (case r' of
                   a # b # c2 # d # r'' \<Rightarrow>
                     (case (hexVal a, hexVal b, hexVal c2, hexVal d) of
                        (Some h1, Some h2, Some h3, Some h4) \<Rightarrow>
                          (case utf8 (((h1 * 16 + h2) * 16 + h3) * 16 + h4) of
                             None \<Rightarrow> None
                           | Some cs \<Rightarrow> consTo cs (parseChars r''))
                      | _ \<Rightarrow> None)
                 | _ \<Rightarrow> None)
              else
                (case unescape e of
                   None \<Rightarrow> None
                 | Some ch \<Rightarrow> consTo [ch] (parseChars r'))))
      else if (of_char c :: nat) < 0x20 then None
      else consTo [c] (parseChars r))"

fun readDigits :: "nat \<Rightarrow> string \<Rightarrow> nat \<times> string" where
  "readDigits acc [] = (acc, [])"
| "readDigits acc (c # r) =
     (if isDigit c then readDigits (acc * 10 + digitVal c) r else (acc, c # r))"

definition parseNat :: "string \<Rightarrow> (nat \<times> string) option" where
  "parseNat s =
     (case s of
        [] \<Rightarrow> None
      | c # r \<Rightarrow>
          (if \<not> isDigit c then None
           else if c = CHR ''0'' then
             (case r of
                [] \<Rightarrow> Some (0, r)
              | d # _ \<Rightarrow> if isDigit d then None else Some (0, r))
           else Some (readDigits 0 s)))"

definition parseNumber :: "string \<Rightarrow> (int \<times> string) option" where
  "parseNumber s =
     (case (case s of
              [] \<Rightarrow> None
            | c # r \<Rightarrow>
                (if c = CHR ''-'' then map_option (\<lambda>(n, rest). (- int n, rest)) (parseNat r)
                 else map_option (\<lambda>(n, rest). (int n, rest)) (parseNat s))) of
        None \<Rightarrow> None
      | Some (i, rest) \<Rightarrow>
          (case rest of
             [] \<Rightarrow> Some (i, rest)
           | c # _ \<Rightarrow>
               if c = CHR ''.'' \<or> c = CHR ''e'' \<or> c = CHR ''E'' then None else Some (i, rest)))"

fun parseValue :: "nat \<Rightarrow> string \<Rightarrow> (json \<times> string) option"
  and parseElements :: "nat \<Rightarrow> string \<Rightarrow> (json list \<times> string) option"
  and parseMembers :: "nat \<Rightarrow> string \<Rightarrow> ((string \<times> json) list \<times> string) option"
where
  "parseValue 0 s = None"
| "parseValue (Suc fuel) s =
     (case skipWs s of
        [] \<Rightarrow> None
      | c # r \<Rightarrow>
          (if c = CHR ''n'' then
             (if take 3 r = ''ull'' then Some (JNull, drop 3 r) else None)
           else if c = CHR ''t'' then
             (if take 3 r = ''rue'' then Some (JBool True, drop 3 r) else None)
           else if c = CHR ''f'' then
             (if take 4 r = ''alse'' then Some (JBool False, drop 4 r) else None)
           else if c = CHR 0x22 then
             map_option (\<lambda>(str, rest). (JStr str, rest)) (parseChars r)
           else if c = CHR ''['' then
             (case skipWs r of
                [] \<Rightarrow> None
              | d # r' \<Rightarrow>
                  if d = CHR '']'' then Some (JArr [], r')
                  else map_option (\<lambda>(vs, rest). (JArr vs, rest)) (parseElements fuel r))
           else if c = CHR ''{'' then
             (case skipWs r of
                [] \<Rightarrow> None
              | d # r' \<Rightarrow>
                  if d = CHR ''}'' then Some (JObj [], r')
                  else map_option (\<lambda>(ms, rest). (JObj ms, rest)) (parseMembers fuel r))
           else map_option (\<lambda>(i, rest). (JNum i, rest)) (parseNumber (c # r))))"
| "parseElements 0 s = None"
| "parseElements (Suc fuel) s =
     (case parseValue fuel s of
        None \<Rightarrow> None
      | Some (v, r) \<Rightarrow>
          (case skipWs r of
             [] \<Rightarrow> None
           | c # r' \<Rightarrow>
               if c = CHR '','' then
                 map_option (\<lambda>(vs, rest). (v # vs, rest)) (parseElements fuel r')
               else if c = CHR '']'' then Some ([v], r')
               else None))"
| "parseMembers 0 s = None"
| "parseMembers (Suc fuel) s =
     (case skipWs s of
        [] \<Rightarrow> None
      | q # r \<Rightarrow>
          if q \<noteq> CHR 0x22 then None
          else
            (case parseChars r of
               None \<Rightarrow> None
             | Some (k, r1) \<Rightarrow>
                 (case skipWs r1 of
                    [] \<Rightarrow> None
                  | c # r2 \<Rightarrow>
                      if c \<noteq> CHR '':'' then None
                      else
                        (case parseValue fuel r2 of
                           None \<Rightarrow> None
                         | Some (v, r3) \<Rightarrow>
                             (case skipWs r3 of
                                [] \<Rightarrow> None
                              | e # r4 \<Rightarrow>
                                  if e = CHR '','' then
                                    map_option (\<lambda>(ms, rest). ((k, v) # ms, rest))
                                      (parseMembers fuel r4)
                                  else if e = CHR ''}'' then Some ([(k, v)], r4)
                                  else None)))))"

declare parseValue.simps [simp del] parseElements.simps [simp del] parseMembers.simps [simp del]

definition JSON_parse :: "string \<Rightarrow> json option" where
  "JSON_parse s =
     (case parseValue (length s) s of
        None \<Rightarrow> None
      | Some (v, rest) \<Rightarrow> if skipWs rest = [] then Some v else None)"

subsection \<open>\<^verbatim>\<open>encodeURIComponent\<close> and \<^verbatim>\<open>decodeURIComponent\<close>\<close>

text \<open>
  Every byte that is not a letter, a digit or one of \<^verbatim>\<open>- _ . ! ~ * ' ( )\<close> becomes
  \<^verbatim>\<open>%XX\<close>. Decoding fails on a \<^verbatim>\<open>%\<close> that two hexadecimal digits do not follow.
\<close>

definition hexUpper :: "nat \<Rightarrow> char" where
  "hexUpper d = ''0123456789ABCDEF'' ! d"

definition uriUnreserved :: "char \<Rightarrow> bool" where
  "uriUnreserved c =
     (let n = (of_char c :: nat)
      in (65 \<le> n \<and> n \<le> 90) \<or> (97 \<le> n \<and> n \<le> 122) \<or> (48 \<le> n \<and> n \<le> 57)
         \<or> c \<in> set [CHR ''-'', CHR ''_'', CHR ''.'', CHR ''!'', CHR ''~'', CHR ''*'', CHR 0x27,
                       CHR ''('', CHR '')''])"

definition uriEscape :: "char \<Rightarrow> string" where
  "uriEscape c =
     (if uriUnreserved c then [c]
      else [CHR ''%'', hexUpper (of_char c div 16), hexUpper (of_char c mod 16)])"

definition encodeURIComponent :: "string \<Rightarrow> string" where
  "encodeURIComponent s = concat (map uriEscape s)"

fun decodeURIComponent :: "string \<Rightarrow> string option" where
  "decodeURIComponent [] = Some []"
| "decodeURIComponent (c # r) =
     (if c = CHR ''%'' then
        (case r of
           a # b # r' \<Rightarrow>
             (case (hexVal a, hexVal b) of
                (Some h, Some l) \<Rightarrow> map_option ((#) (char_of (h * 16 + l))) (decodeURIComponent r')
              | _ \<Rightarrow> None)
         | _ \<Rightarrow> None)
      else map_option ((#) c) (decodeURIComponent r))"

subsection \<open>\<^verbatim>\<open>btoa\<close> and \<^verbatim>\<open>atob\<close>\<close>

text \<open>
  Base64 with padding, and the forgiving decoder of the HTML standard: white space is
  dropped, one or two trailing \<^verbatim>\<open>=\<close> are dropped when the length is a multiple of four, a
  length of one modulo four or a character outside the alphabet is an error.
\<close>

definition b64chars :: string where
  "b64chars = ''ABCDEFGHIJKLMNOPQRSTUVWXYZabcdefghijklmnopqrstuvwxyz0123456789+/''"

definition b64 :: "nat \<Rightarrow> char" where
  "b64 i = b64chars ! i"

fun indexOf :: "'a \<Rightarrow> 'a list \<Rightarrow> nat option" where
  "indexOf x [] = None"
| "indexOf x (y # ys) = (if x = y then Some 0 else map_option Suc (indexOf x ys))"

definition b64val :: "char \<Rightarrow> nat option" where
  "b64val c = indexOf c b64chars"

fun btoa :: "string \<Rightarrow> string" where
  "btoa [] = []"
| "btoa [a] =
     [b64 (of_char a div 4), b64 (of_char a mod 4 * 16), CHR ''='', CHR ''='']"
| "btoa [a, b] =
     [b64 (of_char a div 4), b64 (of_char a mod 4 * 16 + of_char b div 16),
      b64 (of_char b mod 16 * 4), CHR ''='']"
| "btoa (a # b # c # r) =
     [b64 (of_char a div 4), b64 (of_char a mod 4 * 16 + of_char b div 16),
      b64 (of_char b mod 16 * 4 + of_char c div 64), b64 (of_char c mod 64)] @ btoa r"

definition isAsciiWs :: "char \<Rightarrow> bool" where
  "isAsciiWs c = (c = CHR 0x09 \<or> c = CHR 0x0A \<or> c = CHR 0x0C \<or> c = CHR 0x0D \<or> c = CHR '' '')"

definition dropEq :: "string \<Rightarrow> string" where
  "dropEq d = (if d \<noteq> [] \<and> last d = CHR ''='' then butlast d else d)"

definition stripPad :: "string \<Rightarrow> string" where
  "stripPad d = (if length d mod 4 = 0 then dropEq (dropEq d) else d)"

fun atobBytes :: "nat list \<Rightarrow> string" where
  "atobBytes (p # q # r # s # rest) =
     [char_of (p * 4 + q div 16), char_of (q mod 16 * 16 + r div 4), char_of (r mod 4 * 64 + s)]
     @ atobBytes rest"
| "atobBytes [p, q, r] = [char_of (p * 4 + q div 16), char_of (q mod 16 * 16 + r div 4)]"
| "atobBytes [p, q] = [char_of (p * 4 + q div 16)]"
| "atobBytes _ = []"

definition atob :: "string \<Rightarrow> string option" where
  "atob data =
     (let d = stripPad (filter (\<lambda>c. \<not> isAsciiWs c) data)
      in if length d mod 4 = 1 then None
         else (case those (map b64val d) of
                 None \<Rightarrow> None
               | Some xs \<Rightarrow> Some (atobBytes xs)))"

subsection \<open>The game as a JSON value\<close>

text \<open>
  The members in the order in which \<^verbatim>\<open>handleCreateGame\<close> writes the properties. Reading
  a game back is reading its properties; where a property that the record needs is
  missing or of another type there is no game.
\<close>

definition cellToJson :: "BingoCell \<Rightarrow> json" where
  "cellToJson c =
     JObj ([(''id'', JStr (cell_id c)), (''text'', JStr (cell_text c))]
           @ (case photos c of None \<Rightarrow> [] | Some ps \<Rightarrow> [(''photos'', JArr (map JStr ps))])
           @ (case completedAt c of None \<Rightarrow> [] | Some t \<Rightarrow> [(''completedAt'', JNum (int t))]))"

definition gameToJson :: "BingoGame \<Rightarrow> json" where
  "gameToJson g =
     JObj ([(''id'', JStr (game_id g)), (''title'', JStr (title g)),
            (''size'', JNum (int (game_size g))), (''createdAt'', JNum (int (createdAt g)))]
           @ (case theme g of None \<Rightarrow> [] | Some t \<Rightarrow> [(''theme'', JStr t)])
           @ [(''cells'', JArr (map cellToJson (cells g)))])"

definition field :: "string \<Rightarrow> json \<Rightarrow> json option" where
  "field k v = (case v of JObj ms \<Rightarrow> map_of (rev ms) k | _ \<Rightarrow> None)"

definition stringOf :: "json \<Rightarrow> string option" where
  "stringOf v = (case v of JStr s \<Rightarrow> Some s | _ \<Rightarrow> None)"

definition natOf :: "json \<Rightarrow> nat option" where
  "natOf v = (case v of JNum i \<Rightarrow> if 0 \<le> i then Some (nat i) else None | _ \<Rightarrow> None)"

definition listOf :: "(json \<Rightarrow> 'a option) \<Rightarrow> json \<Rightarrow> 'a list option" where
  "listOf conv v = (case v of JArr xs \<Rightarrow> those (map conv xs) | _ \<Rightarrow> None)"

definition required :: "(json \<Rightarrow> 'a option) \<Rightarrow> json option \<Rightarrow> 'a option" where
  "required conv f = (case f of None \<Rightarrow> None | Some v \<Rightarrow> conv v)"

definition optional :: "(json \<Rightarrow> 'a option) \<Rightarrow> json option \<Rightarrow> 'a option option" where
  "optional conv f =
     (case f of None \<Rightarrow> Some None | Some v \<Rightarrow> map_option Some (conv v))"

definition cellFromJson :: "json \<Rightarrow> BingoCell option" where
  "cellFromJson v =
     (case (required stringOf (field ''id'' v), required stringOf (field ''text'' v),
            optional (listOf stringOf) (field ''photos'' v),
            optional natOf (field ''completedAt'' v)) of
        (Some i, Some t, Some ps, Some done) \<Rightarrow>
          Some \<lparr>cell_id = i, cell_text = t, photos = ps, completedAt = done\<rparr>
      | _ \<Rightarrow> None)"

definition gameFromJson :: "json \<Rightarrow> BingoGame option" where
  "gameFromJson v =
     (case (required stringOf (field ''id'' v), required stringOf (field ''title'' v),
            required natOf (field ''size'' v), required (listOf cellFromJson) (field ''cells'' v),
            required natOf (field ''createdAt'' v), optional stringOf (field ''theme'' v)) of
        (Some i, Some t, Some n, Some cs, Some created, Some th) \<Rightarrow>
          Some \<lparr>game_id = i, title = t, game_size = n, cells = cs, createdAt = created,
                theme = th\<rparr>
      | _ \<Rightarrow> None)"

subsection \<open>\<^verbatim>\<open>handleShare\<close> and the import\<close>

text \<open>
  \<^verbatim>\<open>gameTemplate\<close> is the copy with a new id, the photos cleared and \<^verbatim>\<open>createdAt\<close>
  reset; \<open>now1\<close> and \<open>now2\<close> are the two readings of \<^verbatim>\<open>Date.now()\<close>. \<open>handleShare\<close> is
  the value of \<^verbatim>\<open>encoded\<close>, the part of the link after \<^verbatim>\<open>?import=\<close>; \<open>importGame\<close> is
  \<^verbatim>\<open>importedGame\<close>, with \<open>None\<close> where the source catches the exception.
\<close>

definition gameTemplate :: "BingoGame \<Rightarrow> nat \<Rightarrow> nat \<Rightarrow> BingoGame" where
  "gameTemplate game now1 now2 =
     game\<lparr>game_id := showNat now1,
          cells := map (\<lambda>c. c\<lparr>photos := Some [], completedAt := None\<rparr>) (cells game),
          createdAt := now2\<rparr>"

definition handleShare :: "BingoGame \<Rightarrow> nat \<Rightarrow> nat \<Rightarrow> string" where
  "handleShare game now1 now2 =
     (let gameString = stringify (gameToJson (gameTemplate game now1 now2));
          encoded = btoa (encodeURIComponent gameString)
      in encoded)"

definition importGame :: "string \<Rightarrow> BingoGame option" where
  "importGame importData =
     (case atob importData of
        None \<Rightarrow> None
      | Some escaped \<Rightarrow>
          (case decodeURIComponent escaped of
             None \<Rightarrow> None
           | Some json \<Rightarrow>
               (case JSON_parse json of
                  None \<Rightarrow> None
                | Some v \<Rightarrow> gameFromJson v)))"

subsection \<open>Notions for the proofs about the share link\<close>

text \<open>
  The value of a run of digits, what may follow a number and a value, how a number and
  a value start, the fuel a value needs, the text of one member, and the six-bit groups
  and the padding that \<open>btoa\<close> writes.
\<close>

definition digitsVal :: "nat \<Rightarrow> string \<Rightarrow> nat" where
  "digitsVal acc ds = foldl (\<lambda>a c. a * 10 + digitVal c) acc ds"

definition numberEnd :: "string \<Rightarrow> bool" where
  "numberEnd rest =
     (rest = [] \<or> \<not> isDigit (hd rest) \<and> hd rest \<notin> {CHR ''.'', CHR ''e'', CHR ''E''})"

definition numberStart :: "char \<Rightarrow> bool" where
  "numberStart c = (\<not> isWs c
     \<and> c \<notin> {CHR ''n'', CHR ''t'', CHR ''f'', CHR 0x22, CHR ''['', CHR ''{'', CHR '']'', CHR ''}''})"

fun need :: "json \<Rightarrow> nat" where
  "need (JArr vs) = Suc (sum_list (map (\<lambda>v. Suc (need v)) vs))"
| "need (JObj ms) = Suc (sum_list (map (\<lambda>(k, v). Suc (need v)) ms))"
| "need v = 1"

definition valueEnd :: "string \<Rightarrow> bool" where
  "valueEnd rest = (rest = [] \<or> hd rest \<in> {CHR '','', CHR '']'', CHR ''}''})"

definition valueStart :: "char \<Rightarrow> bool" where
  "valueStart c = (\<not> isWs c \<and> c \<noteq> CHR '']'' \<and> c \<noteq> CHR ''}'')"

definition memberText :: "string \<times> json \<Rightarrow> string" where
  "memberText m = (case m of (k, v) \<Rightarrow> quoteJSONString k @ CHR '':'' # stringify v)"

fun sextets :: "string \<Rightarrow> nat list" where
  "sextets [] = []"
| "sextets [a] = [of_char a div 4, of_char a mod 4 * 16]"
| "sextets [a, b] =
     [of_char a div 4, of_char a mod 4 * 16 + of_char b div 16, of_char b mod 16 * 4]"
| "sextets (a # b # c # r) =
     [of_char a div 4, of_char a mod 4 * 16 + of_char b div 16,
      of_char b mod 16 * 4 + of_char c div 64, of_char c mod 64] @ sextets r"

fun padding :: "string \<Rightarrow> string" where
  "padding [] = []"
| "padding [a] = ''==''"
| "padding [a, b] = ''=''"
| "padding (a # b # c # r) = padding r"

section \<open>Photo Normalizer (src/components/BingoBoard.tsx, lines 86-106)\<close>

text \<open>
  The resize logic computes in JavaScript numbers, which are IEEE 754 binary64 values.
  \<open>rnd\<close> is the rounding of a positive real to the nearest value with 53 significant
  bits, ties to the even one: \<open>expo\<close> is the binary exponent, \<open>ulp\<close> the distance of
  neighbouring values at that exponent, \<open>rne\<close> the nearest integer with ties to even.
  \<^verbatim>\<open>a / b\<close> and \<^verbatim>\<open>a * b\<close> are the rounded exact quotient and product. Overflow and
  subnormal values do not occur: the operands are image dimensions below \<open>2^32\<close> and the
  constant 800.
\<close>

definition rne :: "real \<Rightarrow> int" where
  "rne y =
     (let f = \<lfloor>y\<rfloor>; d = y - of_int f
      in if d < 1 / 2 then f
         else if d > 1 / 2 then f + 1
         else if even f then f else f + 1)"

definition expo :: "real \<Rightarrow> int" where
  "expo x = \<lfloor>log 2 x\<rfloor>"

definition ulp :: "real \<Rightarrow> real" where
  "ulp x = 2 powr (of_int (expo x) - 52)"

definition rnd :: "real \<Rightarrow> real" where
  "rnd x = (if x = 0 then 0 else of_int (rne (x / ulp x)) * ulp x)"

definition fdiv :: "real \<Rightarrow> real \<Rightarrow> real" where
  "fdiv a b = rnd (a / b)"

definition fmul :: "real \<Rightarrow> real \<Rightarrow> real" where
  "fmul a b = rnd (a * b)"

text \<open>
  The values of \<^verbatim>\<open>width\<close> and \<^verbatim>\<open>height\<close> after the resize logic, for the natural
  numbers \<^verbatim>\<open>img.width\<close> and \<^verbatim>\<open>img.height\<close>. \<^verbatim>\<open>height *= MAX_WIDTH / width\<close> divides
  first and multiplies then, each with its own rounding.
\<close>

definition resizeLogic :: "nat \<Rightarrow> nat \<Rightarrow> real \<times> real" where
  "resizeLogic imgWidth imgHeight =
     (let width = real imgWidth; height = real imgHeight;
          MAX_WIDTH = 800; MAX_HEIGHT = 800
      in if width > height then
           (if width > MAX_WIDTH then (MAX_WIDTH, fmul height (fdiv MAX_WIDTH width))
            else (width, height))
         else
           (if height > MAX_HEIGHT then (fmul width (fdiv MAX_HEIGHT height), MAX_HEIGHT)
            else (width, height)))"

text \<open>
  \<^verbatim>\<open>img.width\<close> and \<^verbatim>\<open>img.height\<close> are \<^verbatim>\<open>unsigned long\<close> attributes, 32-bit words. The
  canvas attributes are \<^verbatim>\<open>unsigned long\<close> too, so the assignments
  \<^verbatim>\<open>canvas.width = width\<close> and \<^verbatim>\<open>canvas.height = height\<close> keep the integer part.
\<close>

definition compressImage_size :: "32 word \<Rightarrow> 32 word \<Rightarrow> real \<times> real" where
  "compressImage_size imgWidth imgHeight = resizeLogic (unat imgWidth) (unat imgHeight)"

definition canvasSize :: "real \<times> real \<Rightarrow> nat \<times> nat" where
  "canvasSize wh = (nat \<lfloor>fst wh\<rfloor>, nat \<lfloor>snd wh\<rfloor>)"

section \<open>Example boards\<close>

text \<open>
  A 3x3 board as \<^verbatim>\<open>handleCreateGame\<close> builds it for the manual path, a board without
  cells as a share link can carry it, and an \<open>n\<close>x\<open>n\<close> board on which exactly the cells at
  the given indices have one photo.
\<close>

definition freshBoard :: BingoGame where
  "freshBoard =
     \<lparr>game_id = ''1700000000000'', title = ''Trip'', game_size = 3,
      cells =
       [\<lparr>cell_id = ''cell-1700000000002-0'', cell_text = ''Task 1'', photos = Some [], completedAt = None\<rparr>,
        \<lparr>cell_id = ''cell-1700000000003-1'', cell_text = ''Task 2'', photos = Some [], completedAt = None\<rparr>,
        \<lparr>cell_id = ''cell-1700000000004-2'', cell_text = ''Task 3'', photos = Some [], completedAt = None\<rparr>,
        \<lparr>cell_id = ''cell-1700000000005-3'', cell_text = ''Task 4'', photos = Some [], completedAt = None\<rparr>,
        \<lparr>cell_id = ''cell-1700000000006-4'', cell_text = ''Task 5'', photos = Some [], completedAt = None\<rparr>,
        \<lparr>cell_id = ''cell-1700000000007-5'', cell_text = ''Task 6'', photos = Some [], completedAt = None\<rparr>,
        \<lparr>cell_id = ''cell-1700000000008-6'', cell_text = ''Task 7'', photos = Some [], completedAt = None\<rparr>,
        \<lparr>cell_id = ''cell-1700000000009-7'', cell_text = ''Task 8'', photos = Some [], completedAt = None\<rparr>,
        \<lparr>cell_id = ''cell-1700000000010-8'', cell_text = ''Task 9'', photos = Some [], completedAt = None\<rparr>],
      createdAt = 1700000000001, theme = None\<rparr>"

definition noCellsBoard :: BingoGame where
  "noCellsBoard = \<lparr>game_id = ''1700000000000'', title = ''Trip'', game_size = 3, cells = [],
     createdAt = 1700000000000, theme = None\<rparr>"

definition markedBoard :: "nat \<Rightarrow> nat list \<Rightarrow> BingoGame" where
  "markedBoard n marked =
     \<lparr>game_id = ''1700000000000'', title = ''Trip'', game_size = n,
      cells = map (\<lambda>i. \<lparr>cell_id = ''cell-1700000000002-'' @ showNat i,
                          cell_text = ''Task '' @ showNat (i + 1),
                          photos = Some (if i \<in> set marked then [''data:image/jpeg;base64,AA''] else []),
                          completedAt = (if i \<in> set marked then Some 1700000000500 else None)\<rparr>)
                  [0..<n * n],
      createdAt = 1700000000001, theme = None\<rparr>"

section \<open>The example boards\<close>

lemmas eval_showNat = showNat.simps [of 0] showNat.simps [of "Suc 0"] showNat.simps [of "numeral k"]
  digitChar_def for k

lemma showNat_digit: "n < 10 \<Longrightarrow> showNat n = [''0123456789'' ! n]"
  by (simp add: showNat.simps [of n] digitChar_def)

lemma upt_0_numeral: "[0..<numeral n] = 0 # [1..<numeral n]"
  by (subst upt_rec) simp

lemma upt_1_numeral:
  "[Suc 0..<numeral n] = (if (1::nat) < numeral n then Suc 0 # [2..<numeral n] else [])"
  by (subst upt_rec) (simp only: Suc_1 numeral_2_eq_2 One_nat_def)

text \<open>
  \<open>freshBoard\<close> is the board that submitting the form with the title \<^verbatim>\<open>Trip\<close>, size 3
  and no topic creates when the clock reads \<open>1700000000000 + k\<close> at its \<open>k\<close>-th reading.
\<close>

lemma freshBoard_created:
  "map_option (\<lambda>params. handleCreateGame params (\<lambda>k. 1700000000000 + k))
     (handleSubmit ''Trip'' 3 [] RequestFailed) = Some freshBoard"
  by (simp add: handleSubmit_def handleCreateGame_def freshBoard_def upt_0_numeral upt_1_numeral
      eval_showNat showNat_digit Let_def)

section \<open>Properties of the evaluator\<close>

lemma completedList_distinct: "distinct (completedList g)"
  by (simp add: completedList_def)

lemma card_completedIndices:
  "card (completedIndices g) = length (filter hasPhotos (cells g))"
proof -
  have "card (completedIndices g) = length (completedList g)"
    unfolding completedIndices_def
    by (rule distinct_card [OF completedList_distinct])
  also have "\<dots> = length (filter hasPhotos (map (\<lambda>i. cells g ! i) [0..<length (cells g)]))"
    by (simp add: completedList_def length_filter_map comp_def)
  also have "\<dots> = length (filter hasPhotos (cells g))"
    by (simp add: map_nth)
  finally show ?thesis .
qed

lemma isFull_iff:
  "isFull g \<longleftrightarrow> cells g \<noteq> [] \<and> (\<forall>c \<in> set (cells g). hasPhotos c)"
proof -
  have "length (filter hasPhotos (cells g)) = length (cells g)
        \<longleftrightarrow> (\<forall>c \<in> set (cells g). hasPhotos c)"
    by (metis filter_id_conv length_filter_less less_irrefl_nat filter_True)
  then show ?thesis
    by (simp add: isFull_def card_completedIndices)
qed

text \<open>
  C10. The full-house flag of a board with no cells is false: the computation asks for
  \<^verbatim>\<open>game.cells.length > 0\<close> besides every cell being completed, so the empty board is
  never reported as fully complete although all of its (zero) cells are completed.
\<close>

theorem empty_board_not_full_house:
  "cells g = [] \<Longrightarrow> \<not> isFullHouse g \<and> (\<forall>c \<in> set (cells g). hasPhotos c)"
  by (simp add: isFullHouse_def isFull_def)

theorem empty_board_not_full_house_witness:
  "cells \<lparr>game_id = ''1'', title = ''t'', game_size = 0, cells = [], createdAt = 1, theme = None\<rparr> = []
   \<and> \<not> isFullHouse \<lparr>game_id = ''1'', title = ''t'', game_size = 0, cells = [], createdAt = 1, theme = None\<rparr>"
  using empty_board_not_full_house
    [of "\<lparr>game_id = ''1'', title = ''t'', game_size = 0, cells = [], createdAt = 1, theme = None\<rparr>"]
  by simp

lemma completedIndices_iff:
  "j \<in> completedIndices h \<longleftrightarrow> j < length (cells h) \<and> hasPhotos (cells h ! j)"
  by (auto simp: completedIndices_def completedList_def)

lemma hasPhotos_iff: "hasPhotos c \<longleftrightarrow> (\<exists>ps. photos c = Some ps \<and> ps \<noteq> [])"
  by (simp add: hasPhotos_def split: option.splits)

lemma upt3: "[0..<3] = [0, 1, 2]" by (simp add: upt_rec)
lemma upt5: "[0..<5] = [0, 1, 2, 3, 4]" by (simp add: upt_rec)

lemma winLines_row0:
  "winLines 3 {0, 1, 2} = [0 \<mapsto> [''row''], 1 \<mapsto> [''row''], 2 \<mapsto> [''row'']]"
  by (simp add: winLines_def checkLine_def rowIndices_def colIndices_def d1_def d2_def
      tagIndex_def upt3 numeral_2_eq_2)

lemma winLines_diag:
  "winLines 5 {0, 6, 12, 18, 24} =
     [0 \<mapsto> [''diag''], 6 \<mapsto> [''diag''], 12 \<mapsto> [''diag''], 18 \<mapsto> [''diag''], 24 \<mapsto> [''diag'']]"
  by (simp add: winLines_def checkLine_def rowIndices_def colIndices_def d1_def d2_def
      tagIndex_def upt5)

lemma completedIndices_markedBoard:
  "completedIndices (markedBoard n marked) = {i \<in> set marked. i < n * n}"
  by (auto simp: completedIndices_def completedList_def markedBoard_def hasPhotos_def split: if_splits)

lemma markedBoard_all:
  "list_all hasPhotos (cells (markedBoard n marked)) \<longleftrightarrow> (\<forall>i < n * n. i \<in> set marked)"
  by (auto simp: markedBoard_def list_all_iff hasPhotos_def split: if_splits)

text \<open>
  C1 (amended). On a board of size 3 whose completed cells are exactly the indices 0, 1, 2
  of row 0, the evaluator tags these three indices with \<open>row\<close> and no other index has
  an entry. On a board of size 5 whose completed cells are exactly the main diagonal
  0, 6, 12, 18, 24, these five indices are tagged \<open>diag\<close> and no other index has an
  entry. Whenever the board has at least one cell and every cell is completed, the
  full-house flag is true, whatever the line tags are.
\<close>

theorem win_line_classification:
  "(game_size g = 3 \<and> completedIndices g = {0, 1, 2} \<longrightarrow>
      (\<forall>i. winStatus g i = (if i \<in> {0, 1, 2} then Some [''row''] else None)))
   \<and> (game_size g = 5 \<and> completedIndices g = {0, 6, 12, 18, 24} \<longrightarrow>
      (\<forall>i. winStatus g i = (if i \<in> {0, 6, 12, 18, 24} then Some [''diag''] else None)))
   \<and> (cells g \<noteq> [] \<and> list_all hasPhotos (cells g) \<longrightarrow> isFullHouse g)"
proof (intro conjI impI allI)
  fix i assume "game_size g = 3 \<and> completedIndices g = {0, 1, 2}"
  then have "winStatus g = [0 \<mapsto> [''row''], 1 \<mapsto> [''row''], 2 \<mapsto> [''row'']]"
    by (simp only: winStatus_def winLines_row0)
  then show "winStatus g i = (if i \<in> {0, 1, 2} then Some [''row''] else None)"
    by simp
next
  fix i assume "game_size g = 5 \<and> completedIndices g = {0, 6, 12, 18, 24}"
  then have "winStatus g = [0 \<mapsto> [''diag''], 6 \<mapsto> [''diag''], 12 \<mapsto> [''diag''], 18 \<mapsto> [''diag''], 24 \<mapsto> [''diag'']]"
    by (simp only: winStatus_def winLines_diag)
  then show "winStatus g i = (if i \<in> {0, 6, 12, 18, 24} then Some [''diag''] else None)"
    by simp
next
  assume "cells g \<noteq> [] \<and> list_all hasPhotos (cells g)"
  then show "isFullHouse g"
    by (simp add: isFullHouse_def isFull_iff list_all_iff)
qed

theorem win_line_classification_witness:
  "(game_size (markedBoard 3 [0, 1, 2]) = 3 \<and> completedIndices (markedBoard 3 [0, 1, 2]) = {0, 1, 2})
   \<and> winStatus (markedBoard 3 [0, 1, 2]) 1 = Some [''row'']
   \<and> winStatus (markedBoard 3 [0, 1, 2]) 3 = None
   \<and> (game_size (markedBoard 5 [0, 6, 12, 18, 24]) = 5
        \<and> completedIndices (markedBoard 5 [0, 6, 12, 18, 24]) = {0, 6, 12, 18, 24})
   \<and> winStatus (markedBoard 5 [0, 6, 12, 18, 24]) 12 = Some [''diag'']
   \<and> winStatus (markedBoard 5 [0, 6, 12, 18, 24]) 4 = None
   \<and> (cells (markedBoard 3 [0..<9]) \<noteq> [] \<and> list_all hasPhotos (cells (markedBoard 3 [0..<9])))
   \<and> isFullHouse (markedBoard 3 [0..<9])"
proof -
  have a: "game_size (markedBoard 3 [0, 1, 2]) = 3 \<and> completedIndices (markedBoard 3 [0, 1, 2]) = {0, 1, 2}"
    by (auto simp: completedIndices_markedBoard) (simp add: markedBoard_def)
  have b: "game_size (markedBoard 5 [0, 6, 12, 18, 24]) = 5
        \<and> completedIndices (markedBoard 5 [0, 6, 12, 18, 24]) = {0, 6, 12, 18, 24}"
    by (auto simp: completedIndices_markedBoard) (simp add: markedBoard_def)
  have c: "cells (markedBoard 3 [0..<9]) \<noteq> [] \<and> list_all hasPhotos (cells (markedBoard 3 [0..<9]))"
    by (simp add: markedBoard_all) (simp add: markedBoard_def)
  from a win_line_classification [of "markedBoard 3 [0, 1, 2]"]
  have a': "winStatus (markedBoard 3 [0, 1, 2]) 1 = Some [''row'']
      \<and> winStatus (markedBoard 3 [0, 1, 2]) 3 = None"
    by simp
  from b win_line_classification [of "markedBoard 5 [0, 6, 12, 18, 24]"]
  have b': "winStatus (markedBoard 5 [0, 6, 12, 18, 24]) 12 = Some [''diag'']
      \<and> winStatus (markedBoard 5 [0, 6, 12, 18, 24]) 4 = None"
    by simp
  from c win_line_classification [of "markedBoard 3 [0..<9]"]
  have c': "isFullHouse (markedBoard 3 [0..<9])"
    by blast
  from a a' b b' c c' show ?thesis by blast
qed

text \<open>
  Without the condition that the board has a cell the last part fails: on the board
  without cells every cell is completed and the flag is false.
\<close>

theorem full_house_vacuous_counterexample:
  "list_all hasPhotos (cells noCellsBoard) \<and> \<not> isFullHouse noCellsBoard"
  by (simp add: noCellsBoard_def isFullHouse_def isFull_def)

section \<open>Properties of the photo operations\<close>

lemma splice1_valid:
  "0 \<le> i \<Longrightarrow> i < int (length xs) \<Longrightarrow> length (splice1 xs i) = length xs - 1"
  by (auto simp: splice1_def Let_def min_def)

lemma addPhotoCell_count:
  "photoCount (addPhotoCell u now c) = photoCount c + 1 \<and> photos (addPhotoCell u now c) \<noteq> None
   \<and> cell_id (addPhotoCell u now c) = cell_id c"
  by (simp add: addPhotoCell_def photoCount_def Let_def split: option.splits)

lemma attachRun_count:
  "ps \<noteq> [] \<Longrightarrow> photoCount (attachRun ps c) = photoCount c + length ps \<and> photos (attachRun ps c) \<noteq> None"
proof (induction ps arbitrary: c)
  case Nil
  then show ?case by simp
next
  case (Cons p ps)
  obtain u now where p: "p = (u, now)" by (cases p)
  show ?case
  proof (cases "ps = []")
    case True
    then show ?thesis using addPhotoCell_count [of u now c] by (simp add: attachRun_def p)
  next
    case False
    from Cons.IH [OF False, of "addPhotoCell u now c"] addPhotoCell_count [of u now c]
    show ?thesis by (simp add: attachRun_def p)
  qed
qed

lemma removePhotoCell_valid:
  assumes "photos c = Some ps" "0 \<le> i" "i < int (length ps)"
  shows "photoCount (removePhotoCell i c) = length ps - 1"
    and "photos (removePhotoCell i c) \<noteq> None"
    and "length ps = 1 \<Longrightarrow> photos (removePhotoCell i c) = Some [] \<and> completedAt (removePhotoCell i c) = None"
  using assms splice1_valid [of i ps]
  by (auto simp: removePhotoCell_def photoCount_def Let_def)

lemma removeRun_clears:
  "photos c \<noteq> None \<Longrightarrow> idxs \<noteq> [] \<Longrightarrow> validRemovals (photoCount c) idxs \<Longrightarrow>
   photos (removeRun idxs c) = Some [] \<and> completedAt (removeRun idxs c) = None"
proof (induction idxs arbitrary: c)
  case Nil
  then show ?case by simp
next
  case (Cons i idxs)
  from Cons.prems obtain ps where ps: "photos c = Some ps" by auto
  from Cons.prems ps have i: "0 \<le> i" "i < int (length ps)"
    and rest: "validRemovals (length ps - 1) idxs"
    by (auto simp: photoCount_def)
  note r = removePhotoCell_valid [OF ps i]
  show ?case
  proof (cases "idxs = []")
    case True
    with rest have "length ps - 1 = 0" by simp
    with i have "length ps = 1" by simp
    with r(3) True show ?thesis by (simp add: removeRun_def)
  next
    case False
    from Cons.IH [OF r(2) False] rest r(1)
    show ?thesis by (simp add: removeRun_def)
  qed
qed

lemma cells_attachPhotos:
  "cells (attachPhotos ps cellId g) = map (\<lambda>c. if cell_id c = cellId then attachRun ps c else c) (cells g)"
proof (induction ps arbitrary: g)
  case Nil
  then show ?case by (simp add: attachPhotos_def attachRun_def cong: if_cong)
next
  case (Cons p ps)
  obtain u now where p: "p = (u, now)" by (cases p)
  have "attachPhotos (p # ps) cellId g = attachPhotos ps cellId (fst (addPhoto g cellId u now))"
    by (simp add: attachPhotos_def p)
  then show ?case
    using Cons.IH [of "fst (addPhoto g cellId u now)"] addPhotoCell_count
    by (simp add: addPhoto_def updateGameState_def attachRun_def p comp_def cong: map_cong if_cong)
qed

lemma removePhotoCell_id: "cell_id (removePhotoCell i c) = cell_id c"
  by (simp add: removePhotoCell_def Let_def split: option.splits)

lemma cells_removePhotos:
  "cells (removePhotos idxs cellId g) = map (\<lambda>c. if cell_id c = cellId then removeRun idxs c else c) (cells g)"
proof (induction idxs arbitrary: g)
  case Nil
  then show ?case by (simp add: removePhotos_def removeRun_def cong: if_cong)
next
  case (Cons i idxs)
  have "removePhotos (i # idxs) cellId g = removePhotos idxs cellId (fst (removePhoto g cellId i))"
    by (simp add: removePhotos_def)
  then show ?case
    using Cons.IH [of "fst (removePhoto g cellId i)"] removePhotoCell_id
    by (simp add: removePhoto_def updateGameState_def removeRun_def comp_def cong: map_cong if_cong)
qed

lemma attachRun_id: "cell_id (attachRun ps c) = cell_id c"
proof (induction ps arbitrary: c)
  case Nil
  then show ?case by (simp add: attachRun_def)
next
  case (Cons p ps)
  obtain u now where p: "p = (u, now)" by (cases p)
  from Cons.IH [of "addPhotoCell u now c"] addPhotoCell_count [of u now c]
  show ?case by (simp add: attachRun_def p)
qed

text \<open>
  C3. An index is classified completed exactly when its cell has a non-empty photo list;
  nothing else of the cell enters the test. After attaching one or more photos to a
  cell the cell is completed, and after removing every photo of that cell, one valid
  index at a time, the cell is classified incomplete again, its list is empty and its
  \<^verbatim>\<open>completedAt\<close> is unset.
\<close>

theorem photo_completion_cycle:
  "(j \<in> completedIndices h \<longleftrightarrow>
      j < length (cells h) \<and> (\<exists>qs. photos (cells h ! j) = Some qs \<and> qs \<noteq> []))
   \<and> (i < length (cells g) \<and> cell_id (cells g ! i) = cellId \<and> ps \<noteq> []
        \<and> validRemovals (photoCount (cells (attachPhotos ps cellId g) ! i)) idxs \<longrightarrow>
      i \<in> completedIndices (attachPhotos ps cellId g)
      \<and> i \<notin> completedIndices (removePhotos idxs cellId (attachPhotos ps cellId g))
      \<and> photos (cells (removePhotos idxs cellId (attachPhotos ps cellId g)) ! i) = Some []
      \<and> completedAt (cells (removePhotos idxs cellId (attachPhotos ps cellId g)) ! i) = None)"
proof (intro conjI impI)
  show "j \<in> completedIndices h \<longleftrightarrow>
      j < length (cells h) \<and> (\<exists>qs. photos (cells h ! j) = Some qs \<and> qs \<noteq> [])"
    by (simp add: completedIndices_iff hasPhotos_iff)
next
  assume h: "i < length (cells g) \<and> cell_id (cells g ! i) = cellId \<and> ps \<noteq> []
        \<and> validRemovals (photoCount (cells (attachPhotos ps cellId g) ! i)) idxs"
  let ?c = "cells g ! i"
  let ?g' = "attachPhotos ps cellId g"
  let ?g'' = "removePhotos idxs cellId ?g'"
  from h have i: "i < length (cells g)" and cid: "cell_id ?c = cellId" and ps: "ps \<noteq> []"
    and v0: "validRemovals (photoCount (cells ?g' ! i)) idxs"
    by blast+
  from i cid have c': "cells ?g' ! i = attachRun ps ?c"
    by (simp add: cells_attachPhotos)
  from i have len': "i < length (cells ?g')"
    by (simp add: cells_attachPhotos)
  from ps attachRun_count [of ps ?c]
  have cnt: "photoCount (attachRun ps ?c) = photoCount ?c + length ps"
    and some: "photos (attachRun ps ?c) \<noteq> None"
    by simp_all
  have id': "cell_id (attachRun ps ?c) = cellId"
    using cid by (simp add: attachRun_id)
  from ps cnt have pos: "0 < photoCount (attachRun ps ?c)" by simp
  with some have "hasPhotos (attachRun ps ?c)"
    by (auto simp: hasPhotos_def photoCount_def)
  with c' len' show "i \<in> completedIndices ?g'"
    by (simp add: completedIndices_iff)
  from v0 c' have v: "validRemovals (photoCount (attachRun ps ?c)) idxs" by simp
  with pos have ne: "idxs \<noteq> []" by (cases idxs) auto
  have "cells ?g'' ! i =
      (\<lambda>c. if cell_id c = cellId then removeRun idxs c else c) (cells ?g' ! i)"
    using len' by (simp only: cells_removePhotos nth_map)
  with id' c' have c'': "cells ?g'' ! i = removeRun idxs (attachRun ps ?c)"
    by simp
  from removeRun_clears [OF some ne v] c''
  show p: "photos (cells ?g'' ! i) = Some []" and "completedAt (cells ?g'' ! i) = None"
    by simp_all
  from p show "i \<notin> completedIndices ?g''"
    by (simp add: completedIndices_iff hasPhotos_def)
qed

theorem photo_completion_cycle_witness:
  "(0 < length (cells freshBoard)
    \<and> cell_id (cells freshBoard ! 0) = ''cell-1700000000002-0''
    \<and> [(''data:a'', 1700000000500), (''data:b'', 1700000000600)] \<noteq> []
    \<and> validRemovals
         (photoCount (cells (attachPhotos [(''data:a'', 1700000000500), (''data:b'', 1700000000600)]
            ''cell-1700000000002-0'' freshBoard) ! 0)) [1, 0])
   \<and> 0 \<in> completedIndices
         (attachPhotos [(''data:a'', 1700000000500), (''data:b'', 1700000000600)]
            ''cell-1700000000002-0'' freshBoard)
   \<and> 0 \<notin> completedIndices
         (removePhotos [1, 0] ''cell-1700000000002-0''
            (attachPhotos [(''data:a'', 1700000000500), (''data:b'', 1700000000600)]
               ''cell-1700000000002-0'' freshBoard))
   \<and> completedAt (cells
         (removePhotos [1, 0] ''cell-1700000000002-0''
            (attachPhotos [(''data:a'', 1700000000500), (''data:b'', 1700000000600)]
               ''cell-1700000000002-0'' freshBoard)) ! 0) = None"
proof -
  have h: "0 < length (cells freshBoard)
    \<and> cell_id (cells freshBoard ! 0) = ''cell-1700000000002-0''
    \<and> [(''data:a'', 1700000000500), (''data:b'', 1700000000600)] \<noteq> []
    \<and> validRemovals
         (photoCount (cells (attachPhotos [(''data:a'', 1700000000500), (''data:b'', 1700000000600)]
            ''cell-1700000000002-0'' freshBoard) ! 0)) [1, 0]"
    by (simp add: cells_attachPhotos)
      (simp add: freshBoard_def attachRun_def addPhotoCell_def photoCount_def)
  from h photo_completion_cycle
    [where g = freshBoard and i = 0 and cellId = "''cell-1700000000002-0''"
       and ps = "[(''data:a'', 1700000000500), (''data:b'', 1700000000600)]" and idxs = "[1, 0]"]
  show ?thesis by blast
qed

lemma splice1_beyond: "int (length xs) \<le> i \<Longrightarrow> splice1 xs i = xs"
  by (simp add: splice1_def Let_def min_def)

lemma splice1_negative:
  "i < 0 \<Longrightarrow> splice1 xs i = take (nat (int (length xs) + i)) xs @ drop (nat (int (length xs) + i) + 1) xs"
  by (simp add: splice1_def Let_def max_def)

text \<open>
  C7 (amended). \<^verbatim>\<open>removePhoto\<close> has no failing branch. With an index at or beyond the
  length of the photo list it leaves the list as it is, and the whole cell when the list
  is not empty (on an empty list \<^verbatim>\<open>completedAt\<close> becomes unset). A negative index is
  not left alone: \<^verbatim>\<open>splice\<close> counts it from the end, clamped to the first position, so
  one photo of a non-empty list is removed. A cell without a photo list, and every cell
  with another id, is returned as it is.
\<close>

theorem removePhoto_out_of_range:
  "(photos c = Some ps \<and> int (length ps) \<le> i \<longrightarrow>
      photos (removePhotoCell i c) = Some ps
      \<and> (ps \<noteq> [] \<longrightarrow> removePhotoCell i c = c)
      \<and> (ps = [] \<longrightarrow> completedAt (removePhotoCell i c) = None))
   \<and> (photos c = Some ps \<and> ps \<noteq> [] \<and> i < 0 \<longrightarrow>
      length (the (photos (removePhotoCell i c))) = length ps - 1
      \<and> photos (removePhotoCell i c) =
          Some (take (nat (int (length ps) + i)) ps @ drop (nat (int (length ps) + i) + 1) ps))
   \<and> (photos c = None \<longrightarrow> removePhotoCell i c = c)
   \<and> cells (fst (removePhoto game cellId i)) =
       map (\<lambda>c. if cell_id c = cellId then removePhotoCell i c else c) (cells game)"
  by (auto simp: removePhotoCell_def splice1_beyond splice1_negative Let_def removePhoto_def
      updateGameState_def)

theorem removePhoto_out_of_range_witness:
  "(photos \<lparr>cell_id = ''c0'', cell_text = ''Task 1'', photos = Some [''data:a'', ''data:b''],
              completedAt = Some 1700000000500\<rparr> = Some [''data:a'', ''data:b'']
    \<and> int (length [''data:a'', ''data:b'']) \<le> 2)
   \<and> removePhotoCell 2 \<lparr>cell_id = ''c0'', cell_text = ''Task 1'',
         photos = Some [''data:a'', ''data:b''], completedAt = Some 1700000000500\<rparr>
       = \<lparr>cell_id = ''c0'', cell_text = ''Task 1'', photos = Some [''data:a'', ''data:b''],
           completedAt = Some 1700000000500\<rparr>
   \<and> ([''data:a'', ''data:b''] \<noteq> [] \<and> (- 2 :: int) < 0)
   \<and> photos (removePhotoCell (- 2) \<lparr>cell_id = ''c0'', cell_text = ''Task 1'',
         photos = Some [''data:a'', ''data:b''], completedAt = Some 1700000000500\<rparr>)
       = Some [''data:b'']"
  using removePhoto_out_of_range
    [where c = "\<lparr>cell_id = ''c0'', cell_text = ''Task 1'', photos = Some [''data:a'', ''data:b''],
                 completedAt = Some 1700000000500\<rparr>"
       and ps = "[''data:a'', ''data:b'']" and i = 2]
    removePhoto_out_of_range
    [where c = "\<lparr>cell_id = ''c0'', cell_text = ''Task 1'', photos = Some [''data:a'', ''data:b''],
                 completedAt = Some 1700000000500\<rparr>"
       and ps = "[''data:a'', ''data:b'']" and i = "- 2"]
  by simp

text \<open>
  The claim as first stated also takes negative indices for no-ops; index \<open>-1\<close> removes
  the last photo.
\<close>

theorem removePhoto_negative_index_counterexample:
  "photos (removePhotoCell (- 1) \<lparr>cell_id = ''c0'', cell_text = ''Task 1'',
       photos = Some [''data:a'', ''data:b''], completedAt = Some 1700000000500\<rparr>) = Some [''data:a'']"
  by (simp add: removePhotoCell_def splice1_def)

text \<open>
  C4 (amended). \<^verbatim>\<open>addPhoto\<close> passes \<^verbatim>\<open>triggerConfetti = true\<close> on every call, so the
  celebration is signalled on every attachment, whatever the full-house status was before
  and is after; \<^verbatim>\<open>removePhoto\<close> never signals it.
\<close>

theorem confetti_on_every_attach:
  "snd (addPhoto game cellId url now) = True \<and> snd (removePhoto game cellId photoIndex) = False"
  by (simp add: addPhoto_def removePhoto_def updateGameState_def)

text \<open>
  The claim as first stated ties the signal to the board becoming fully complete; the
  first photo on a fresh 3x3 board signals it although the board is not a full house
  before or after.
\<close>

theorem confetti_counterexample:
  "snd (addPhoto freshBoard ''cell-1700000000002-0'' ''data:image/jpeg;base64,AA'' 1700000000500)
   \<and> \<not> isFullHouse freshBoard
   \<and> \<not> isFullHouse (fst (addPhoto freshBoard ''cell-1700000000002-0'' ''data:image/jpeg;base64,AA'' 1700000000500))"
  by (simp add: freshBoard_def addPhoto_def updateGameState_def addPhotoCell_def isFullHouse_def
      isFull_iff hasPhotos_def)

section \<open>Properties of the migration\<close>

text \<open>
  C6 (amended). A persisted cell without a photo list loads with the one-element list of
  its \<^verbatim>\<open>photoUrl\<close> when that is a non-empty string, and with the empty list when it has
  no \<^verbatim>\<open>photoUrl\<close> or an empty one; a cell with a photo list keeps it. No other field
  changes, and the loader does this to every cell of every game.
\<close>

theorem migration_upgrades_cells:
  "(photos cell = None \<and> photoUrl cell = Some u \<and> u \<noteq> [] \<longrightarrow>
      photos (migrateCell cell) = Some [u])
   \<and> (photos cell = None \<and> (photoUrl cell = None \<or> photoUrl cell = Some []) \<longrightarrow>
      photos (migrateCell cell) = Some [])
   \<and> (photos cell = Some ps \<longrightarrow> photos (migrateCell cell) = Some ps)
   \<and> migrateCell cell = cell\<lparr>photos := photos (migrateCell cell)\<rparr>
   \<and> map cells (migrateGames games) = map (\<lambda>game. map migrateCell (cells game)) games"
  by (auto simp: migrateCell_def migrateGames_def comp_def split: option.splits)

theorem migration_upgrades_cells_witness:
  "(photos \<lparr>cell_id = ''c0'', cell_text = ''Task 1'', photos = None, completedAt = None,
              photoUrl = Some ''data:a''\<rparr> = None
    \<and> photoUrl \<lparr>cell_id = ''c0'', cell_text = ''Task 1'', photos = None, completedAt = None,
              photoUrl = Some ''data:a''\<rparr> = Some ''data:a'' \<and> ''data:a'' \<noteq> [])
   \<and> photos (migrateCell \<lparr>cell_id = ''c0'', cell_text = ''Task 1'', photos = None,
         completedAt = None, photoUrl = Some ''data:a''\<rparr>) = Some [''data:a'']
   \<and> (photos \<lparr>cell_id = ''c1'', cell_text = ''Task 2'', photos = None, completedAt = None,
              photoUrl = None\<rparr> = None
    \<and> photoUrl \<lparr>cell_id = ''c1'', cell_text = ''Task 2'', photos = None, completedAt = None,
              photoUrl = None\<rparr> = None)
   \<and> photos (migrateCell \<lparr>cell_id = ''c1'', cell_text = ''Task 2'', photos = None,
         completedAt = None, photoUrl = None\<rparr>) = Some []
   \<and> photos \<lparr>cell_id = ''c2'', cell_text = ''Task 3'', photos = Some [''data:b'', ''data:c''],
              completedAt = Some 1700000000500, photoUrl = None\<rparr> = Some [''data:b'', ''data:c'']
   \<and> photos (migrateCell \<lparr>cell_id = ''c2'', cell_text = ''Task 3'',
         photos = Some [''data:b'', ''data:c''], completedAt = Some 1700000000500,
         photoUrl = None\<rparr>) = Some [''data:b'', ''data:c'']"
  using migration_upgrades_cells
    [where cell = "\<lparr>cell_id = ''c0'', cell_text = ''Task 1'', photos = None, completedAt = None,
                    photoUrl = Some ''data:a''\<rparr>" and u = "''data:a''"]
    migration_upgrades_cells
    [where cell = "\<lparr>cell_id = ''c1'', cell_text = ''Task 2'', photos = None, completedAt = None,
                    photoUrl = None\<rparr>"]
    migration_upgrades_cells
    [where cell = "\<lparr>cell_id = ''c2'', cell_text = ''Task 3'', photos = Some [''data:b'', ''data:c''],
                    completedAt = Some 1700000000500, photoUrl = None\<rparr>"
       and ps = "[''data:b'', ''data:c'']"]
  by simp

text \<open>
  The claim as first stated gives every cell that carries a \<^verbatim>\<open>photoUrl\<close> a one-element
  list; a cell whose \<^verbatim>\<open>photoUrl\<close> is the empty string loads with the empty list.
\<close>

theorem migration_empty_photoUrl_counterexample:
  "photos \<lparr>cell_id = ''c0'', cell_text = ''Task 1'', photos = None, completedAt = None,
            photoUrl = Some ''''\<rparr> = None
   \<and> photos (migrateCell \<lparr>cell_id = ''c0'', cell_text = ''Task 1'', photos = None,
                          completedAt = None, photoUrl = Some ''''\<rparr>) = Some []
   \<and> photos (migrateCell \<lparr>cell_id = ''c0'', cell_text = ''Task 1'', photos = None,
                          completedAt = None, photoUrl = Some ''''\<rparr>) \<noteq> Some ['''']"
  by (simp add: migrateCell_def)

section \<open>Properties of the suggestions and of board creation\<close>

lemma length_bonusItems: "length (bonusItems k) = k"
  by (simp add: bonusItems_def)

lemma length_fallbackItems: "length (fallbackItems topic count) = count"
  by (simp add: fallbackItems_def)

lemma length_generateBingoItems: "length (generateBingoItems topic count outcome) = count"
  by (cases outcome) (simp_all add: generateBingoItems_def length_fallbackItems length_bonusItems Let_def)

text \<open>
  C8. For every requested count and every outcome of the provider call the result has
  exactly that many items. When the request fails, the response has no text or does not
  parse, the items are the placeholders \<open>Task i (topic)\<close>; a returned list shorter than
  the count is filled up with \<open>Bonus Item i\<close>, a longer one is cut to the count.
\<close>

theorem suggestions_exact_count:
  "length (generateBingoItems topic count outcome) = count
   \<and> generateBingoItems topic count RequestFailed = fallbackItems topic count
   \<and> generateBingoItems topic count NoResponseText = fallbackItems topic count
   \<and> generateBingoItems topic count Unparsable = fallbackItems topic count
   \<and> generateBingoItems topic count (Items items) =
       (if length items < count then items @ bonusItems (count - length items)
        else take count items)
   \<and> fallbackItems topic count = map (\<lambda>i. ''Task '' @ showNat (i + 1) @ '' ('' @ topic @ '')'') [0..<count]
   \<and> bonusItems count = map (\<lambda>i. ''Bonus Item '' @ showNat (i + 1)) [0..<count]"
proof (intro conjI)
  show "length (generateBingoItems topic count outcome) = count"
    by (rule length_generateBingoItems)
qed (simp_all add: generateBingoItems_def length_bonusItems Let_def fallbackItems_def bonusItems_def)

lemma length_cells_handleCreateGame:
  "length (cells (handleCreateGame params clock)) =
     (case customItems params of None \<Rightarrow> 0 | Some xs \<Rightarrow> length xs)"
  by (simp add: handleCreateGame_def Let_def split: option.splits)

lemma length_HOLIDAY_TASKS: "length HOLIDAY_TASKS = 25"
  by (simp add: HOLIDAY_TASKS_def)

text \<open>
  C5. Every board that the creation form produces, with a topic (for every outcome of the
  provider call) or without one, and the board of the holiday template, has
  \<open>size * size\<close> cells.
\<close>

theorem created_board_is_square:
  "(handleSubmit title_in n topic outcome = Some params \<longrightarrow>
      game_size (handleCreateGame params clock) = n
      \<and> length (cells (handleCreateGame params clock)) =
          game_size (handleCreateGame params clock) * game_size (handleCreateGame params clock))
   \<and> game_size (handleCreateGame loadHolidayTemplate clock) = 5
   \<and> length (cells (handleCreateGame loadHolidayTemplate clock)) =
       game_size (handleCreateGame loadHolidayTemplate clock)
         * game_size (handleCreateGame loadHolidayTemplate clock)"
proof (intro conjI impI)
  assume h: "handleSubmit title_in n topic outcome = Some params"
  then have "p_size params = n \<and>
      (case customItems params of None \<Rightarrow> 0 | Some xs \<Rightarrow> length xs) = n * n"
    by (auto simp: handleSubmit_def Let_def length_generateBingoItems split: if_splits)
  then show "game_size (handleCreateGame params clock) = n"
    and "length (cells (handleCreateGame params clock)) =
          game_size (handleCreateGame params clock) * game_size (handleCreateGame params clock)"
    by (simp_all add: length_cells_handleCreateGame) (simp_all add: handleCreateGame_def)
next
  show "game_size (handleCreateGame loadHolidayTemplate clock) = 5"
    by (simp add: handleCreateGame_def loadHolidayTemplate_def)
  then show "length (cells (handleCreateGame loadHolidayTemplate clock)) =
       game_size (handleCreateGame loadHolidayTemplate clock)
         * game_size (handleCreateGame loadHolidayTemplate clock)"
    by (simp add: length_cells_handleCreateGame loadHolidayTemplate_def length_HOLIDAY_TASKS)
qed

theorem created_board_is_square_witness:
  "handleSubmit ''Trip'' 3 ''Airport'' (Items [''See a Plane'']) =
     Some \<lparr>p_title = ''Trip'', p_size = 3, p_topic = Some ''Airport'',
           customItems = Some (generateBingoItems ''Airport'' (3 * 3) (Items [''See a Plane'']))\<rparr>
   \<and> length (cells (handleCreateGame
         \<lparr>p_title = ''Trip'', p_size = 3, p_topic = Some ''Airport'',
          customItems = Some (generateBingoItems ''Airport'' (3 * 3) (Items [''See a Plane'']))\<rparr>
         (\<lambda>k. 1700000000000 + k))) = 3 * 3"
proof -
  have h: "handleSubmit ''Trip'' 3 ''Airport'' (Items [''See a Plane'']) =
     Some \<lparr>p_title = ''Trip'', p_size = 3, p_topic = Some ''Airport'',
           customItems = Some (generateBingoItems ''Airport'' (3 * 3) (Items [''See a Plane'']))\<rparr>"
    by (simp add: handleSubmit_def)
  from h created_board_is_square
    [where title_in = "''Trip''" and n = 3 and topic = "''Airport''"
       and outcome = "Items [''See a Plane'']" and clock = "\<lambda>k. 1700000000000 + k"
       and params = "\<lparr>p_title = ''Trip'', p_size = 3, p_topic = Some ''Airport'',
           customItems = Some (generateBingoItems ''Airport'' (3 * 3) (Items [''See a Plane'']))\<rparr>"]
  show ?thesis by simp
qed

section \<open>Properties of the share link\<close>

subsection \<open>Numbers\<close>

lemma digit_cases: "d < 10 \<Longrightarrow> d \<in> {0, 1, 2, 3, 4, 5, 6, 7, 8, 9::nat}"
  by auto

lemma digitChar_props:
  assumes "d < 10"
  shows "isDigit (digitChar d)" and "digitVal (digitChar d) = d"
    and "digitChar d = CHR ''0'' \<longleftrightarrow> d = 0"
    and "\<not> isWs (digitChar d)"
    and "digitChar d \<notin> {CHR ''n'', CHR ''t'', CHR ''f'', CHR 0x22, CHR ''['', CHR ''{'', CHR ''-''}"
  using digit_cases [OF assms]
  by (auto simp: digitChar_def isDigit_def digitVal_def isWs_def)

lemma readDigits_append:
  "list_all isDigit ds \<Longrightarrow> readDigits acc (ds @ rest) = readDigits (digitsVal acc ds) rest"
  by (induction ds arbitrary: acc) (simp_all add: digitsVal_def)

lemma readDigits_stop:
  "rest = [] \<or> \<not> isDigit (hd rest) \<Longrightarrow> readDigits acc rest = (acc, rest)"
  by (cases rest) auto

lemma showNat_digits: "list_all isDigit (showNat n)"
proof (induction n rule: showNat.induct)
  case (1 n)
  show ?case
  proof (cases "n < 10")
    case True
    then show ?thesis by (simp add: showNat.simps [of n] digitChar_props)
  next
    case False
    with 1 show ?thesis by (simp add: showNat.simps [of n] digitChar_props)
  qed
qed

lemma digitsVal_showNat: "digitsVal acc (showNat n) = acc * 10 ^ length (showNat n) + n"
proof (induction n arbitrary: acc rule: showNat.induct)
  case (1 n)
  show ?case
  proof (cases "n < 10")
    case True
    then show ?thesis by (simp add: showNat.simps [of n] digitsVal_def digitChar_props)
  next
    case False
    have "digitsVal acc (showNat n) = digitsVal acc (showNat (n div 10)) * 10 + n mod 10"
      using False by (simp add: showNat.simps [of n] digitsVal_def digitChar_props)
    also have "\<dots> = (acc * 10 ^ length (showNat (n div 10)) + n div 10) * 10 + n mod 10"
      using 1 [OF False] by simp
    also have "\<dots> = acc * 10 ^ length (showNat n) + n"
      using False by (simp add: showNat.simps [of n] algebra_simps)
    finally show ?thesis .
  qed
qed

lemma showNat_head:
  "\<exists>c cs. showNat n = c # cs \<and> isDigit c \<and> (c = CHR ''0'' \<longrightarrow> n = 0 \<and> cs = [])"
proof (induction n rule: showNat.induct)
  case (1 n)
  show ?case
  proof (cases "n < 10")
    case True
    then show ?thesis by (simp add: showNat.simps [of n] digitChar_props)
  next
    case False
    with 1 obtain c cs where "showNat (n div 10) = c # cs" "isDigit c"
      "c = CHR ''0'' \<longrightarrow> n div 10 = 0 \<and> cs = []"
      by blast
    with False show ?thesis by (auto simp: showNat.simps [of n])
  qed
qed

lemma not_digit:
  "\<not> isDigit (CHR ''n'')" "\<not> isDigit (CHR ''t'')" "\<not> isDigit (CHR ''f'')"
  "\<not> isDigit (CHR 0x22)" "\<not> isDigit (CHR ''['')" "\<not> isDigit (CHR ''{'')"
  "\<not> isDigit (CHR '']'')" "\<not> isDigit (CHR ''}'')" "\<not> isDigit (CHR ''-'')"
  "\<not> isDigit (CHR '','')" "\<not> isDigit (CHR '':'')"
  "isWs c \<Longrightarrow> \<not> isDigit c"
  by (auto simp: isDigit_def isWs_def)

lemma parseNat_showNat:
  assumes "numberEnd rest"
  shows "parseNat (showNat n @ rest) = Some (n, rest)"
proof -
  obtain c cs where s: "showNat n = c # cs" and c: "isDigit c"
    and z: "c = CHR ''0'' \<longrightarrow> n = 0 \<and> cs = []"
    using showNat_head by blast
  from assms have stop: "rest = [] \<or> \<not> isDigit (hd rest)" by (auto simp: numberEnd_def)
  show ?thesis
  proof (cases "c = CHR ''0''")
    case True
    with z s stop show ?thesis by (cases rest) (auto simp: parseNat_def isDigit_def)
  next
    case False
    have "readDigits 0 (showNat n @ rest) = (n, rest)"
      using readDigits_append [OF showNat_digits, of 0 n rest] readDigits_stop [OF stop]
      by (simp add: digitsVal_showNat)
    with False c s show ?thesis by (simp add: parseNat_def)
  qed
qed

lemma parseNumber_showInt:
  assumes "numberEnd rest"
  shows "parseNumber (showInt i @ rest) = Some (i, rest)"
proof -
  obtain c cs where s: "showNat (nat \<bar>i\<bar>) = c # cs" and c: "isDigit c"
    using showNat_head by blast
  then have nm: "c \<noteq> CHR ''-''" using not_digit by auto
  have tail: "(case rest of [] \<Rightarrow> Some (i, rest)
           | c # _ \<Rightarrow> if c = CHR ''.'' \<or> c = CHR ''e'' \<or> c = CHR ''E'' then None else Some (i, rest))
        = Some (i, rest)"
    using assms by (cases rest) (auto simp: numberEnd_def)
  show ?thesis
  proof (cases "i < 0")
    case True
    then have "showInt i = CHR ''-'' # showNat (nat \<bar>i\<bar>)" by (simp add: showInt_def)
    with True parseNat_showNat [OF assms, of "nat \<bar>i\<bar>"] tail
    show ?thesis by (simp add: parseNumber_def)
  next
    case False
    then have "showInt i = showNat (nat \<bar>i\<bar>)" by (simp add: showInt_def)
    with False s nm parseNat_showNat [OF assms, of "nat \<bar>i\<bar>"] tail
    show ?thesis by (simp add: parseNumber_def)
  qed
qed

lemma numberStart_digit: "isDigit c \<Longrightarrow> numberStart c"
  using not_digit by (auto simp: numberStart_def)

lemma numberStart_minus: "numberStart (CHR ''-'')"
  by (simp add: numberStart_def isWs_def)

lemma showInt_head: "\<exists>c cs. showInt i = c # cs \<and> numberStart c"
proof -
  obtain c cs where s: "showNat (nat \<bar>i\<bar>) = c # cs" and c: "isDigit c"
    using showNat_head by blast
  show ?thesis
  proof (cases "i < 0")
    case True
    then show ?thesis by (simp add: showInt_def numberStart_minus)
  next
    case False
    with s c show ?thesis by (simp add: showInt_def numberStart_digit)
  qed
qed

lemma showNat_inj:
  assumes "showNat m = showNat n"
  shows "m = n"
proof -
  have "digitsVal 0 (showNat m) = digitsVal 0 (showNat n)"
    by (simp only: assms)
  then show ?thesis
    by (simp add: digitsVal_showNat)
qed

subsection \<open>Strings\<close>

lemma hexVal_hexLower: "d < 16 \<Longrightarrow> hexVal (hexLower d) = Some d"
proof -
  assume "d < 16"
  then have "d \<in> {0, 1, 2, 3, 4, 5, 6, 7, 8, 9, 10, 11, 12, 13, 14, 15}"
    by (simp add: insert_iff) arith
  then show ?thesis
    by (auto simp: hexLower_def hexVal_def)
qed

lemma hexVal_zero: "hexVal (CHR ''0'') = Some 0"
  by (simp add: hexVal_def)

lemma parseChars_plain:
  "c \<noteq> CHR 0x22 \<Longrightarrow> c \<noteq> CHR 0x5C \<Longrightarrow> \<not> (of_char c :: nat) < 0x20 \<Longrightarrow>
   parseChars (c # tail) = consTo [c] (parseChars tail)"
  by simp

lemma parseChars_unicode:
  assumes "(of_char c :: nat) < 0x20"
  shows "parseChars ([CHR 0x5C, CHR ''u'', CHR ''0'', CHR ''0'',
              hexLower (of_char c div 16), hexLower (of_char c mod 16)] @ tail)
         = consTo [c] (parseChars tail)"
proof -
  let ?n = "of_char c :: nat"
  have h: "hexVal (hexLower (?n div 16)) = Some (?n div 16)"
    "hexVal (hexLower (?n mod 16)) = Some (?n mod 16)"
    using assms by (simp_all add: hexVal_hexLower)
  have "utf8 ((((0::nat) * 16 + 0) * 16 + ?n div 16) * 16 + ?n mod 16) = Some [c]"
    using assms by (simp add: utf8_def)
  with h show ?thesis
    by (simp add: hexVal_zero del: mult_Suc mult_Suc_right)
qed

lemma parseChars_quoteChar:
  "parseChars (quoteChar c @ tail) = consTo [c] (parseChars tail)"
proof -
  consider "c = CHR 0x08" | "c = CHR 0x09" | "c = CHR 0x0A" | "c = CHR 0x0C" | "c = CHR 0x0D"
    | "c = CHR 0x22" | "c = CHR 0x5C"
    | "c \<notin> {CHR 0x08, CHR 0x09, CHR 0x0A, CHR 0x0C, CHR 0x0D, CHR 0x22, CHR 0x5C}" "(of_char c :: nat) < 0x20"
    | "c \<notin> {CHR 0x08, CHR 0x09, CHR 0x0A, CHR 0x0C, CHR 0x0D, CHR 0x22, CHR 0x5C}" "\<not> (of_char c :: nat) < 0x20"
    by blast
  then show ?thesis
  proof cases
    case 8
    then have "quoteChar c = [CHR 0x5C, CHR ''u'', CHR ''0'', CHR ''0'',
              hexLower (of_char c div 16), hexLower (of_char c mod 16)]"
      by (simp add: quoteChar_def)
    with parseChars_unicode [OF 8(2)] show ?thesis by simp
  next
    case 9
    then have "quoteChar c = [c]" by (simp add: quoteChar_def)
    with 9 parseChars_plain [of c tail] show ?thesis by simp
  qed (simp_all add: quoteChar_def unescape_def)
qed

lemma parseChars_quoted:
  "parseChars (concat (map quoteChar s) @ CHR 0x22 # rest) = Some (s, rest)"
proof (induction s)
  case Nil
  show ?case by simp
next
  case (Cons c s)
  then show ?case
    by (simp add: parseChars_quoteChar consTo_def del: parseChars.simps(2))
qed

lemma parseChars_quoteJSONString:
  "\<exists>body. quoteJSONString s @ rest = CHR 0x22 # body \<and> parseChars body = Some (s, rest)"
  using parseChars_quoted [of s rest] by (simp add: quoteJSONString_def)

subsection \<open>Values\<close>

lemmas parse_unfold = parseValue.simps(2) parseElements.simps(2) parseMembers.simps(2)

lemma valueEnd_numberEnd: "valueEnd rest \<Longrightarrow> numberEnd rest"
  using not_digit by (auto simp: valueEnd_def numberEnd_def)

lemma valueEnd_Cons [simp]:
  "valueEnd (CHR '','' # r)" "valueEnd (CHR '']'' # r)" "valueEnd (CHR ''}'' # r)" "valueEnd []"
  by (simp_all add: valueEnd_def)

lemma skipWs_nonws: "\<not> isWs c \<Longrightarrow> skipWs (c # r) = c # r"
  by (simp add: skipWs_def)

lemma skipWs_punct [simp]:
  "skipWs (CHR '','' # r) = CHR '','' # r" "skipWs (CHR '']'' # r) = CHR '']'' # r"
  "skipWs (CHR ''}'' # r) = CHR ''}'' # r" "skipWs (CHR '':'' # r) = CHR '':'' # r"
  "skipWs (CHR 0x22 # r) = CHR 0x22 # r" "skipWs [] = []"
  by (simp_all add: skipWs_def isWs_def)

lemma stringify_head: "\<exists>c r. stringify v = c # r \<and> valueStart c"
proof (cases v)
  case (JNum i)
  obtain c cs where "showInt i = c # cs" "numberStart c"
    using showInt_head by blast
  with JNum show ?thesis by (simp add: valueStart_def numberStart_def)
next
  case (JBool b)
  then show ?thesis by (cases b) (simp_all add: valueStart_def isWs_def)
qed (simp_all add: valueStart_def isWs_def quoteJSONString_def)

lemma parseValue_atoms:
  "parseValue (Suc fuel) (stringify JNull @ rest) = Some (JNull, rest)"
  "parseValue (Suc fuel) (stringify (JBool b) @ rest) = Some (JBool b, rest)"
  by (simp_all add: parse_unfold skipWs_def isWs_def)

lemma parseValue_string:
  "parseValue (Suc fuel) (stringify (JStr s) @ rest) = Some (JStr s, rest)"
proof -
  obtain body where "quoteJSONString s @ rest = CHR 0x22 # body"
    "parseChars body = Some (s, rest)"
    using parseChars_quoteJSONString by blast
  then show ?thesis by (simp add: parse_unfold)
qed

lemma parseValue_other:
  assumes "\<not> isWs c"
    and "c \<noteq> CHR ''n''" "c \<noteq> CHR ''t''" "c \<noteq> CHR ''f''" "c \<noteq> CHR 0x22"
    and "c \<noteq> CHR ''[''" "c \<noteq> CHR ''{''"
  shows "parseValue (Suc fuel) (c # r) =
    map_option (\<lambda>(i, rest). (JNum i, rest)) (parseNumber (c # r))"
  using assms by (simp add: parse_unfold skipWs_nonws)

lemma parseValue_number:
  assumes "valueEnd rest"
  shows "parseValue (Suc fuel) (stringify (JNum i) @ rest) = Some (JNum i, rest)"
proof -
  obtain c cs where s: "showInt i = c # cs" and ns: "numberStart c"
    using showInt_head by blast
  have str: "stringify (JNum i) @ rest = c # (cs @ rest)"
    by (simp add: s)
  have "parseNumber (showInt i @ rest) = Some (i, rest)"
    by (rule parseNumber_showInt [OF valueEnd_numberEnd [OF assms]])
  then have pn: "parseNumber (c # (cs @ rest)) = Some (i, rest)"
    by (simp add: s)
  have v: "parseValue (Suc fuel) (c # (cs @ rest)) =
      map_option (\<lambda>(i, rest). (JNum i, rest)) (parseNumber (c # (cs @ rest)))"
    using ns by (intro parseValue_other) (simp_all add: numberStart_def)
  have "map_option (\<lambda>(i, rest). (JNum i, rest)) (parseNumber (c # (cs @ rest))) = Some (JNum i, rest)"
    by (simp add: pn)
  with v str show ?thesis by (simp only:)
qed

lemma commaSep_Cons:
  "ys \<noteq> [] \<Longrightarrow> commaSep (x # ys) = x @ CHR '','' # commaSep ys"
  by (cases ys) simp_all

lemma parseElements_stringify:
  assumes "\<And>v fuel rest. v \<in> set vs \<Longrightarrow> need v \<le> fuel \<Longrightarrow> valueEnd rest \<Longrightarrow>
             parseValue fuel (stringify v @ rest) = Some (v, rest)"
    and "vs \<noteq> []" and "sum_list (map (\<lambda>v. Suc (need v)) vs) \<le> fuel"
  shows "parseElements fuel (commaSep (map stringify vs) @ CHR '']'' # rest) = Some (vs, rest)"
  using assms
proof (induction vs arbitrary: fuel)
  case Nil
  then show ?case by simp
next
  case (Cons v vs)
  from Cons.prems(3) obtain f where fuel: "fuel = Suc f" and f: "need v \<le> f"
    and fs: "sum_list (map (\<lambda>v. Suc (need v)) vs) \<le> f"
    by (cases fuel) auto
  show ?case
  proof (cases "vs = []")
    case True
    have "parseValue f (stringify v @ CHR '']'' # rest) = Some (v, CHR '']'' # rest)"
      using Cons.prems(1) [of v f "CHR '']'' # rest"] f by simp
    with True fuel show ?thesis by (simp add: parse_unfold)
  next
    case False
    have 1: "parseValue f (stringify v @ CHR '','' # commaSep (map stringify vs) @ CHR '']'' # rest)
        = Some (v, CHR '','' # commaSep (map stringify vs) @ CHR '']'' # rest)"
      using Cons.prems(1) [of v f] f by simp
    have 2: "parseElements f (commaSep (map stringify vs) @ CHR '']'' # rest) = Some (vs, rest)"
    proof (rule Cons.IH [OF _ False fs])
      fix v' fuel' rest'
      assume "v' \<in> set vs" "need v' \<le> fuel'" "valueEnd rest'"
      then show "parseValue fuel' (stringify v' @ rest') = Some (v', rest')"
        using Cons.prems(1) [of v' fuel' rest'] by simp
    qed
    from False have "commaSep (map stringify (v # vs)) =
        stringify v @ CHR '','' # commaSep (map stringify vs)"
      by (simp add: commaSep_Cons)
    with 1 2 fuel show ?thesis by (simp add: parse_unfold)
  qed
qed

lemma parseMembers_stringify:
  assumes "\<And>k v fuel rest. (k, v) \<in> set ms \<Longrightarrow> need v \<le> fuel \<Longrightarrow> valueEnd rest \<Longrightarrow>
             parseValue fuel (stringify v @ rest) = Some (v, rest)"
    and "ms \<noteq> []" and "sum_list (map (\<lambda>(k, v). Suc (need v)) ms) \<le> fuel"
  shows "parseMembers fuel (commaSep (map memberText ms) @ CHR ''}'' # rest) = Some (ms, rest)"
  using assms
proof (induction ms arbitrary: fuel)
  case Nil
  then show ?case by simp
next
  case (Cons m ms)
  obtain k v where m: "m = (k, v)" by (cases m)
  from Cons.prems(3) m obtain f where fuel: "fuel = Suc f" and f: "need v \<le> f"
    and fs: "sum_list (map (\<lambda>(k, v). Suc (need v)) ms) \<le> f"
    by (cases fuel) auto
  have key: "\<And>tail. \<exists>body. memberText m @ tail = CHR 0x22 # body
      \<and> parseChars body = Some (k, CHR '':'' # stringify v @ tail)"
    using parseChars_quoteJSONString [of k] by (simp add: memberText_def m)
  show ?case
  proof (cases "ms = []")
    case True
    obtain body where b: "memberText m @ CHR ''}'' # rest = CHR 0x22 # body"
      "parseChars body = Some (k, CHR '':'' # stringify v @ CHR ''}'' # rest)"
      using key by blast
    have "parseValue f (stringify v @ CHR ''}'' # rest) = Some (v, CHR ''}'' # rest)"
      using Cons.prems(1) [of k v f "CHR ''}'' # rest"] f m by simp
    with True fuel b m show ?thesis by (simp add: parse_unfold)
  next
    case False
    let ?tail = "CHR '','' # commaSep (map memberText ms) @ CHR ''}'' # rest"
    obtain body where b: "memberText m @ ?tail = CHR 0x22 # body"
      "parseChars body = Some (k, CHR '':'' # stringify v @ ?tail)"
      using key by blast
    have 1: "parseValue f (stringify v @ ?tail) = Some (v, ?tail)"
      using Cons.prems(1) [of k v f ?tail] f m by simp
    have 2: "parseMembers f (commaSep (map memberText ms) @ CHR ''}'' # rest) = Some (ms, rest)"
    proof (rule Cons.IH [OF _ False fs])
      fix k' v' fuel' rest'
      assume "(k', v') \<in> set ms" "need v' \<le> fuel'" "valueEnd rest'"
      then show "parseValue fuel' (stringify v' @ rest') = Some (v', rest')"
        using Cons.prems(1) [of k' v' fuel' rest'] by simp
    qed
    from False have "commaSep (map memberText (m # ms)) =
        memberText m @ CHR '','' # commaSep (map memberText ms)"
      by (simp add: commaSep_Cons)
    with 1 2 fuel b m show ?thesis by (simp add: parse_unfold)
  qed
qed

lemma stringify_JObj: "stringify (JObj ms) = CHR ''{'' # commaSep (map memberText ms) @ ''}''"
proof -
  have "memberText = (\<lambda>(k, v). quoteJSONString k @ CHR '':'' # stringify v)"
    by (rule ext) (simp add: memberText_def)
  then show ?thesis by simp
qed

lemma commaSep_head:
  assumes "xs \<noteq> []" and "\<And>x. x \<in> set xs \<Longrightarrow> \<exists>c r. x = c # r \<and> valueStart c"
  shows "\<exists>c r. commaSep xs @ tail = c # r \<and> valueStart c"
proof (cases xs)
  case Nil
  with assms show ?thesis by simp
next
  case (Cons x ys)
  with assms(2) [of x] obtain c r where "x = c # r" "valueStart c" by auto
  with Cons show ?thesis by (cases ys) auto
qed

lemma parseValue_stringify:
  "need v \<le> fuel \<Longrightarrow> valueEnd rest \<Longrightarrow> parseValue fuel (stringify v @ rest) = Some (v, rest)"
proof (induction v arbitrary: fuel rest)
  case JNull
  then show ?case using parseValue_atoms(1) by (cases fuel) auto
next
  case (JBool b)
  then show ?case using parseValue_atoms(2) by (cases fuel) auto
next
  case (JNum i)
  then show ?case using parseValue_number by (cases fuel) auto
next
  case (JStr s)
  then show ?case using parseValue_string by (cases fuel) auto
next
  case (JArr vs)
  from JArr.prems obtain f where fuel: "fuel = Suc f"
    and f: "sum_list (map (\<lambda>v. Suc (need v)) vs) \<le> f"
    by (cases fuel) auto
  show ?case
  proof (cases "vs = []")
    case True
    with fuel show ?thesis by (simp add: parse_unfold skipWs_def isWs_def)
  next
    case False
    have el: "parseElements f (commaSep (map stringify vs) @ CHR '']'' # rest) = Some (vs, rest)"
      using parseElements_stringify [OF _ False f] JArr.IH by blast
    have "\<exists>c r. commaSep (map stringify vs) @ CHR '']'' # rest = c # r \<and> valueStart c"
    proof (rule commaSep_head)
      show "map stringify vs \<noteq> []" using False by simp
    next
      fix x assume "x \<in> set (map stringify vs)"
      then obtain v where "x = stringify v" by auto
      with stringify_head [of v] show "\<exists>c r. x = c # r \<and> valueStart c" by simp
    qed
    then obtain c r where h: "commaSep (map stringify vs) @ CHR '']'' # rest = c # r" "valueStart c"
      by blast
    then have "skipWs (c # r) = c # r" "c \<noteq> CHR '']''"
      by (simp_all add: valueStart_def skipWs_nonws)
    with el h fuel show ?thesis
      by (simp add: parse_unfold skipWs_def isWs_def)
  qed
next
  case (JObj ms)
  from JObj.prems obtain f where fuel: "fuel = Suc f"
    and f: "sum_list (map (\<lambda>(k, v). Suc (need v)) ms) \<le> f"
    by (cases fuel) auto
  show ?case
  proof (cases "ms = []")
    case True
    with fuel show ?thesis by (simp add: parse_unfold skipWs_def isWs_def)
  next
    case False
    have "\<And>k v fuel rest. (k, v) \<in> set ms \<Longrightarrow> need v \<le> fuel \<Longrightarrow> valueEnd rest \<Longrightarrow>
             parseValue fuel (stringify v @ rest) = Some (v, rest)"
      using JObj.IH by force
    then have el: "parseMembers f (commaSep (map memberText ms) @ CHR ''}'' # rest) = Some (ms, rest)"
      using parseMembers_stringify [OF _ False f] by blast
    have "\<exists>c r. commaSep (map memberText ms) @ CHR ''}'' # rest = c # r \<and> valueStart c"
    proof (rule commaSep_head)
      show "map memberText ms \<noteq> []" using False by simp
    next
      fix x assume "x \<in> set (map memberText ms)"
      then obtain m where "x = memberText m" by auto
      then show "\<exists>c r. x = c # r \<and> valueStart c"
        by (cases m) (simp add: memberText_def quoteJSONString_def valueStart_def isWs_def)
    qed
    then obtain c r where h: "commaSep (map memberText ms) @ CHR ''}'' # rest = c # r" "valueStart c"
      by blast
    then have "skipWs (c # r) = c # r" "c \<noteq> CHR ''}''"
      by (simp_all add: valueStart_def skipWs_nonws)
    with el h fuel show ?thesis
      by (simp add: parse_unfold stringify_JObj skipWs_def isWs_def del: stringify.simps(6))
  qed
qed

lemma need_elements:
  assumes "\<And>v. v \<in> set vs \<Longrightarrow> need v \<le> length (stringify v)"
  shows "sum_list (map (\<lambda>v. Suc (need v)) vs) \<le> Suc (length (commaSep (map stringify vs)))"
  using assms
proof (induction vs rule: induct_list012)
  case 1
  then show ?case by simp
next
  case (2 x)
  then show ?case by simp
next
  case (3 x y zs)
  have "need x \<le> length (stringify x)" using 3(3) by simp
  moreover have "sum_list (map (\<lambda>v. Suc (need v)) (y # zs))
      \<le> Suc (length (commaSep (map stringify (y # zs))))"
  proof (rule 3(2))
    fix v' assume "v' \<in> set (y # zs)"
    then show "need v' \<le> length (stringify v')" using 3(3) [of v'] by simp
  qed
  ultimately show ?case by simp
qed

lemma length_memberText:
  "length (memberText (k, v)) = Suc (length (quoteJSONString k) + length (stringify v))"
  by (simp add: memberText_def)

lemma need_members:
  assumes "\<And>k v. (k, v) \<in> set ms \<Longrightarrow> need v \<le> length (stringify v)"
  shows "sum_list (map (\<lambda>(k, v). Suc (need v)) ms) \<le> Suc (length (commaSep (map memberText ms)))"
  using assms
proof (induction ms rule: induct_list012)
  case 1
  then show ?case by simp
next
  case (2 x)
  obtain k v where x: "x = (k, v)" by (cases x)
  with 2 [of k v] show ?case by (simp add: length_memberText)
next
  case (3 x y zs)
  obtain k v where x: "x = (k, v)" by (cases x)
  have "need v \<le> length (stringify v)" using 3(3) [of k v] x by simp
  moreover have "sum_list (map (\<lambda>(k, v). Suc (need v)) (y # zs))
      \<le> Suc (length (commaSep (map memberText (y # zs))))"
  proof (rule 3(2))
    fix k' v' assume "(k', v') \<in> set (y # zs)"
    then show "need v' \<le> length (stringify v')" using 3(3) [of k' v'] by simp
  qed
  ultimately show ?case using x by (simp add: length_memberText)
qed

lemma need_le_length: "need v \<le> length (stringify v)"
proof (induction v)
  case (JArr vs)
  then show ?case using need_elements [of vs] by simp
next
  case (JObj ms)
  have "\<And>k v. (k, v) \<in> set ms \<Longrightarrow> need v \<le> length (stringify v)"
    using JObj.IH by force
  then show ?case
    using need_members [of ms] by (simp add: stringify_JObj del: stringify.simps(6))
next
  case (JNum i)
  obtain c cs where "showInt i = c # cs" using showInt_head by blast
  then show ?case by simp
qed (simp_all add: quoteJSONString_def)

lemma JSON_parse_stringify: "JSON_parse (stringify v) = Some v"
  using parseValue_stringify [OF need_le_length, of "[]" v]
  by (simp add: JSON_parse_def)

subsection \<open>Percent encoding\<close>

lemma hexVal_hexUpper: "d < 16 \<Longrightarrow> hexVal (hexUpper d) = Some d"
proof -
  assume "d < 16"
  then have "d \<in> {0, 1, 2, 3, 4, 5, 6, 7, 8, 9, 10, 11, 12, 13, 14, 15}"
    by (simp add: insert_iff) arith
  then show ?thesis
    by (auto simp: hexUpper_def hexVal_def)
qed

lemma of_char_less_256: "(of_char c :: nat) < 256"
  by (cases c) (simp add: )

lemma char_of_div_mod: "char_of ((of_char c :: nat) div 16 * 16 + of_char c mod 16) = c"
  by simp

lemma decode_uriEscape:
  "decodeURIComponent (uriEscape c @ tail) = map_option ((#) c) (decodeURIComponent tail)"
proof (cases "uriUnreserved c")
  case True
  then have "c \<noteq> CHR ''%''" by (auto simp: uriUnreserved_def)
  with True show ?thesis by (simp add: uriEscape_def)
next
  case False
  have "(of_char c :: nat) div 16 < 16"
    using of_char_less_256 [of c] by arith
  then have "hexVal (hexUpper (of_char c div 16)) = Some (of_char c div 16)"
    "hexVal (hexUpper (of_char c mod 16)) = Some (of_char c mod 16)"
    by (simp_all add: hexVal_hexUpper)
  with False show ?thesis
    by (simp add: uriEscape_def char_of_div_mod)
qed

lemma decode_encodeURIComponent: "decodeURIComponent (encodeURIComponent s) = Some s"
proof (induction s)
  case Nil
  show ?case by (simp add: encodeURIComponent_def)
next
  case (Cons c s)
  then show ?case
    using decode_uriEscape [of c "encodeURIComponent s"]
    by (simp add: encodeURIComponent_def)
qed

subsection \<open>Base64\<close>

lemma btoa_decomp: "btoa s = map b64 (sextets s) @ padding s"
  by (induction s rule: btoa.induct) simp_all

lemma sextet_bounds:
  fixes a b c :: nat
  assumes "a < 256" "b < 256" "c < 256"
  shows "a div 4 < 64" "a mod 4 * 16 + b div 16 < 64" "b mod 16 * 4 + c div 64 < 64"
    "c mod 64 < 64" "a mod 4 * 16 < 64" "b mod 16 * 4 < 64"
  using assms by arith+

lemma sextets_bound: "x \<in> set (sextets s) \<Longrightarrow> x < 64"
proof (induction s rule: sextets.induct)
  case 1
  then show ?case by simp
next
  case (2 a)
  with sextet_bounds [OF of_char_less_256 [of a] of_char_less_256 [of a] of_char_less_256 [of a]]
  show ?case by auto
next
  case (3 a b)
  with sextet_bounds [OF of_char_less_256 [of a] of_char_less_256 [of b] of_char_less_256 [of b]]
  show ?case by auto
next
  case (4 a b c r)
  with sextet_bounds [OF of_char_less_256 [of a] of_char_less_256 [of b] of_char_less_256 [of c]]
  show ?case by auto
qed

lemma sextets_length:
  "length (sextets s) mod 4 \<noteq> 1 \<and> (length (sextets s) + length (padding s)) mod 4 = 0
   \<and> (padding s = [] \<or> sextets s \<noteq> [])"
  by (induction s rule: sextets.induct) simp_all

lemma byte_split:
  fixes a b c :: nat
  assumes "a < 256" "b < 256" "c < 256"
  shows "a div 4 * 4 + (a mod 4 * 16 + b div 16) div 16 = a"
    and "(a mod 4 * 16 + b div 16) mod 16 * 16 + (b mod 16 * 4 + c div 64) div 4 = b"
    and "(b mod 16 * 4 + c div 64) mod 4 * 64 + c mod 64 = c"
    and "(a mod 4 * 16 + b div 16) mod 16 * 16 + (b mod 16 * 4) div 4 = b"
    and "a div 4 * 4 + (a mod 4 * 16) div 16 = a"
proof -
  have b: "b div 16 < 16" and c: "c div 64 < 4"
    using assms by arith+
  show "a div 4 * 4 + (a mod 4 * 16 + b div 16) div 16 = a"
    using b by simp
  show "(a mod 4 * 16 + b div 16) mod 16 * 16 + (b mod 16 * 4 + c div 64) div 4 = b"
    using b c by simp
  show "(b mod 16 * 4 + c div 64) mod 4 * 64 + c mod 64 = c"
    using c by simp
  show "(a mod 4 * 16 + b div 16) mod 16 * 16 + (b mod 16 * 4) div 4 = b"
    using b by simp
  show "a div 4 * 4 + (a mod 4 * 16) div 16 = a"
    by simp
qed

lemma atobBytes_sextets: "atobBytes (sextets s) = s"
proof (induction s rule: sextets.induct)
  case 1
  show ?case by simp
next
  case (2 a)
  show ?case
    using byte_split(5) [OF of_char_less_256 [of a]] by simp
next
  case (3 a b)
  show ?case
    using byte_split(1,4) [OF of_char_less_256 [of a] of_char_less_256 [of b] of_char_less_256 [of b]]
    by simp
next
  case (4 a b c r)
  then show ?case
    using byte_split(1,2,3) [OF of_char_less_256 [of a] of_char_less_256 [of b] of_char_less_256 [of c]]
    by simp
qed

lemma indexOf_nth: "distinct xs \<Longrightarrow> i < length xs \<Longrightarrow> indexOf (xs ! i) xs = Some i"
proof (induction xs arbitrary: i)
  case Nil
  then show ?case by simp
next
  case (Cons x xs)
  then show ?case by (cases i) auto
qed

lemma b64chars_props:
  "distinct b64chars" "length b64chars = 64" "CHR ''='' \<notin> set b64chars"
  "\<And>c. c \<in> set b64chars \<Longrightarrow> \<not> isAsciiWs c"
  by (auto simp: b64chars_def isAsciiWs_def)

lemma b64val_b64: "i < 64 \<Longrightarrow> b64val (b64 i) = Some i"
  using indexOf_nth [OF b64chars_props(1), of i] by (simp add: b64val_def b64_def b64chars_props(2))

lemma b64_in: "i < 64 \<Longrightarrow> b64 i \<in> set b64chars"
  by (simp add: b64_def b64chars_props(2))

lemma those_b64val: "(\<And>x. x \<in> set xs \<Longrightarrow> x < 64) \<Longrightarrow> those (map b64val (map b64 xs)) = Some xs"
  by (induction xs) (simp_all add: b64val_b64)

lemma body_last:
  assumes "\<And>x. x \<in> set xs \<Longrightarrow> x < 64"
  shows "dropEq (map b64 xs) = map b64 xs"
proof (cases "xs = []")
  case True
  then show ?thesis by (simp add: dropEq_def)
next
  case False
  then have "last (map b64 xs) = b64 (last xs)" by (simp add: last_map)
  moreover have "last xs < 64" using assms False by simp
  ultimately have "last (map b64 xs) \<noteq> CHR ''=''"
    using b64_in b64chars_props(3) by metis
  then show ?thesis by (simp add: dropEq_def)
qed

lemma padding_cases: "padding s = [] \<or> padding s = ''='' \<or> padding s = ''==''"
  by (induction s rule: padding.induct) simp_all

lemma stripPad_btoa: "stripPad (btoa s) = map b64 (sextets s)"
proof -
  let ?body = "map b64 (sextets s)"
  have len: "length (btoa s) mod 4 = 0"
    using sextets_length [of s] by (simp add: btoa_decomp)
  have body: "dropEq ?body = ?body"
    using body_last sextets_bound by blast
  have "dropEq (dropEq (?body @ padding s)) = ?body"
    using padding_cases [of s]
  proof (elim disjE)
    assume "padding s = []"
    then show ?thesis using body by simp
  next
    assume "padding s = ''=''"
    then have "dropEq (?body @ padding s) = ?body" by (simp add: dropEq_def butlast_append)
    then show ?thesis using body by simp
  next
    assume p: "padding s = ''==''"
    then have "dropEq (?body @ padding s) = ?body @ ''=''"
      by (simp add: dropEq_def butlast_append)
    moreover have "dropEq (?body @ ''='') = ?body" by (simp add: dropEq_def butlast_append)
    ultimately show ?thesis by simp
  qed
  with len show ?thesis by (simp add: stripPad_def btoa_decomp)
qed

lemma btoa_no_ws: "filter (\<lambda>c. \<not> isAsciiWs c) (btoa s) = btoa s"
proof -
  have "\<And>c. c \<in> set (btoa s) \<Longrightarrow> \<not> isAsciiWs c"
  proof -
    fix c assume "c \<in> set (btoa s)"
    then have "c \<in> set (map b64 (sextets s)) \<or> c \<in> set (padding s)"
      by (simp add: btoa_decomp)
    then show "\<not> isAsciiWs c"
    proof
      assume "c \<in> set (map b64 (sextets s))"
      then obtain x where "x \<in> set (sextets s)" "c = b64 x" by auto
      then show ?thesis using sextets_bound b64_in b64chars_props(4) by metis
    next
      assume "c \<in> set (padding s)"
      then have "c = CHR ''=''" using padding_cases [of s] by auto
      then show ?thesis by (simp add: isAsciiWs_def)
    qed
  qed
  then show ?thesis by (simp add: filter_id_conv)
qed

lemma atob_btoa: "atob (btoa s) = Some s"
proof -
  have "those (map b64val (map b64 (sextets s))) = Some (sextets s)"
    using those_b64val sextets_bound by blast
  moreover have "length (map b64 (sextets s)) mod 4 \<noteq> 1"
    using sextets_length [of s] by simp
  ultimately show ?thesis
    by (simp add: atob_def btoa_no_ws stripPad_btoa atobBytes_sextets)
qed

subsection \<open>Games\<close>

lemma those_stringOf: "those (map (stringOf \<circ> JStr) ps) = Some ps"
  by (induction ps) (simp_all add: stringOf_def)

lemma cellFromJson_cellToJson: "cellFromJson (cellToJson c) = Some c"
  by (cases c; cases "photos c"; cases "completedAt c")
     (simp_all add: cellFromJson_def cellToJson_def field_def required_def optional_def
        stringOf_def natOf_def listOf_def those_stringOf)

lemma those_cellFromJson: "those (map (cellFromJson \<circ> cellToJson) cs) = Some cs"
  by (induction cs) (simp_all add: cellFromJson_cellToJson)

lemma gameFromJson_gameToJson: "gameFromJson (gameToJson g) = Some g"
  by (cases g; cases "theme g")
     (simp_all add: gameFromJson_def gameToJson_def field_def required_def optional_def
        stringOf_def natOf_def listOf_def those_cellFromJson)

lemma importGame_handleShare:
  "importGame (handleShare game now1 now2) = Some (gameTemplate game now1 now2)"
  by (simp add: importGame_def handleShare_def atob_btoa decode_encodeURIComponent
      JSON_parse_stringify gameFromJson_gameToJson)

subsection \<open>The round trip\<close>

lemma gameTemplate_fields:
  "title (gameTemplate b now1 now2) = title b"
  "game_size (gameTemplate b now1 now2) = game_size b"
  "theme (gameTemplate b now1 now2) = theme b"
  "game_id (gameTemplate b now1 now2) = showNat now1"
  "createdAt (gameTemplate b now1 now2) = now2"
  "map cell_id (cells (gameTemplate b now1 now2)) = map cell_id (cells b)"
  "map cell_text (cells (gameTemplate b now1 now2)) = map cell_text (cells b)"
  "list_all (\<lambda>c. photos c = Some [] \<and> completedAt c = None) (cells (gameTemplate b now1 now2))"
  by (simp_all add: gameTemplate_def comp_def list_all_iff)

text \<open>
  C2 (amended). Decoding the share token of a board \<open>b\<close> succeeds and gives the template
  copy: the same title, the same size and the same row-major sequence of cell texts,
  every cell with an empty photo list and no \<^verbatim>\<open>completedAt\<close>. Its id is the decimal
  clock reading taken when sharing and its \<^verbatim>\<open>createdAt\<close> the second reading; they differ
  from those of \<open>b\<close> whenever the id of \<open>b\<close> is the decimal string of another reading and
  \<^verbatim>\<open>createdAt\<close> of \<open>b\<close> is another reading, as it is for a board created earlier.
\<close>

theorem share_round_trip:
  "importGame (handleShare b now1 now2) = Some (gameTemplate b now1 now2)
   \<and> title (gameTemplate b now1 now2) = title b
   \<and> game_size (gameTemplate b now1 now2) = game_size b
   \<and> map cell_text (cells (gameTemplate b now1 now2)) = map cell_text (cells b)
   \<and> list_all (\<lambda>c. photos c = Some [] \<and> completedAt c = None)
         (cells (gameTemplate b now1 now2))
   \<and> game_id (gameTemplate b now1 now2) = showNat now1
   \<and> createdAt (gameTemplate b now1 now2) = now2
   \<and> (game_id b = showNat t \<and> t \<noteq> now1 \<longrightarrow> game_id (gameTemplate b now1 now2) \<noteq> game_id b)
   \<and> (createdAt b \<noteq> now2 \<longrightarrow> createdAt (gameTemplate b now1 now2) \<noteq> createdAt b)"
proof -
  have "game_id b = showNat t \<and> t \<noteq> now1 \<longrightarrow> game_id (gameTemplate b now1 now2) \<noteq> game_id b"
    using showNat_inj [of now1 t] by (auto simp: gameTemplate_fields)
  then show ?thesis
    by (simp add: importGame_handleShare gameTemplate_fields)
qed

theorem share_round_trip_witness:
  "(game_id freshBoard = showNat 1700000000000 \<and> (1700000000000 :: nat) \<noteq> 1700000360000)
   \<and> game_id (gameTemplate freshBoard 1700000360000 1700000360001) \<noteq> game_id freshBoard
   \<and> createdAt freshBoard \<noteq> 1700000360001
   \<and> createdAt (gameTemplate freshBoard 1700000360000 1700000360001) \<noteq> createdAt freshBoard
   \<and> importGame (handleShare freshBoard 1700000360000 1700000360001)
       = Some (gameTemplate freshBoard 1700000360000 1700000360001)"
proof -
  have h: "game_id freshBoard = showNat 1700000000000 \<and> (1700000000000 :: nat) \<noteq> 1700000360000"
    by (simp add: freshBoard_def eval_showNat)
  have h2: "createdAt freshBoard \<noteq> 1700000360001"
    by (simp add: freshBoard_def)
  from h h2 share_round_trip
    [where b = freshBoard and ?now1.0 = 1700000360000 and ?now2.0 = 1700000360001
       and t = 1700000000000]
  show ?thesis by blast
qed

text \<open>
  The claim as first stated gives every board a different id and \<^verbatim>\<open>createdAt\<close>; a board
  shared at the clock readings that it carries itself keeps both.
\<close>

theorem share_same_clock_counterexample:
  "importGame (handleShare freshBoard 1700000000000 1700000000001)
     = Some (gameTemplate freshBoard 1700000000000 1700000000001)
   \<and> game_id (gameTemplate freshBoard 1700000000000 1700000000001) = game_id freshBoard
   \<and> createdAt (gameTemplate freshBoard 1700000000000 1700000000001) = createdAt freshBoard"
  by (simp add: importGame_handleShare gameTemplate_fields) (simp add: freshBoard_def eval_showNat)

section \<open>Properties of the Photo Normalizer\<close>

lemma rne_bounds: "of_int \<lfloor>y\<rfloor> \<le> (of_int (rne y) :: real)" "rne y \<le> \<lfloor>y\<rfloor> + 1"
  by (simp_all add: rne_def Let_def)

lemma rne_error: "\<bar>of_int (rne y) - y\<bar> \<le> 1 / 2"
proof -
  have "of_int \<lfloor>y\<rfloor> \<le> y" "y < of_int \<lfloor>y\<rfloor> + 1" by linarith+
  then show ?thesis
    by (auto simp: rne_def Let_def)
qed

lemma rne_of_int [simp]: "rne (of_int n) = n"
  by (simp add: rne_def)

lemma rne_mono: "y \<le> z \<Longrightarrow> rne y \<le> rne z"
proof -
  assume yz: "y \<le> z"
  then have fl: "\<lfloor>y\<rfloor> \<le> \<lfloor>z\<rfloor>" by (rule floor_mono)
  show ?thesis
  proof (cases "\<lfloor>y\<rfloor> = \<lfloor>z\<rfloor>")
    case True
    with yz show ?thesis by (auto simp: rne_def Let_def)
  next
    case False
    with fl have "\<lfloor>y\<rfloor> + 1 \<le> \<lfloor>z\<rfloor>" by simp
    moreover have "rne y \<le> \<lfloor>y\<rfloor> + 1" by (rule rne_bounds)
    moreover have "\<lfloor>z\<rfloor> \<le> rne z" using rne_bounds(1) [of z] by simp
    ultimately show ?thesis by linarith
  qed
qed

lemma binade:
  assumes "0 < x"
  shows "2 powr of_int (expo x) \<le> x" "x < 2 powr (of_int (expo x) + 1)"
  using floor_log_eq_powr_iff [of x 2 "expo x"] assms by (simp_all add: expo_def)

lemma ulp_pos: "0 < ulp x"
  by (simp add: ulp_def)

lemma scaled_range:
  assumes "0 < x"
  shows "2 ^ 52 \<le> x / ulp x" "x / ulp x < 2 ^ 53"
proof -
  have u: "ulp x * 2 ^ 52 = 2 powr of_int (expo x)"
    by (simp add: ulp_def powr_diff)
  have u2: "ulp x * 2 ^ 53 = 2 powr (of_int (expo x) + 1)"
    by (simp add: ulp_def powr_diff powr_add)
  from binade(1) [OF assms] u have "ulp x * 2 ^ 52 \<le> x" by simp
  then show "2 ^ 52 \<le> x / ulp x"
    using ulp_pos [of x] by (simp add: pos_le_divide_eq mult.commute)
  from binade(2) [OF assms] u2 have "x < ulp x * 2 ^ 53" by simp
  then show "x / ulp x < 2 ^ 53"
    using ulp_pos [of x] by (simp add: pos_divide_less_eq mult.commute)
qed

lemma rnd_scaled:
  assumes "0 < x"
  shows "2 ^ 52 \<le> rne (x / ulp x)" "rne (x / ulp x) \<le> 2 ^ 53"
proof -
  have "rne (of_int (2 ^ 52)) \<le> rne (x / ulp x)"
    using scaled_range(1) [OF assms] by (intro rne_mono) simp
  then show "2 ^ 52 \<le> rne (x / ulp x)" by (simp only: rne_of_int)
  have "rne (x / ulp x) \<le> rne (of_int (2 ^ 53))"
    using scaled_range(2) [OF assms] by (intro rne_mono) simp
  then show "rne (x / ulp x) \<le> 2 ^ 53" by (simp only: rne_of_int)
qed

lemma rnd_range:
  assumes "0 < x"
  shows "2 powr of_int (expo x) \<le> rnd x" "rnd x \<le> 2 powr (of_int (expo x) + 1)"
proof -
  have u: "2 ^ 52 * ulp x = 2 powr of_int (expo x)"
    by (simp add: ulp_def powr_diff)
  have u2: "2 ^ 53 * ulp x = 2 powr (of_int (expo x) + 1)"
    by (simp add: ulp_def powr_diff powr_add)
  have r: "rnd x = of_int (rne (x / ulp x)) * ulp x"
    using assms by (simp add: rnd_def)
  have "(2 ^ 52 :: real) \<le> of_int (rne (x / ulp x))"
    using rnd_scaled(1) [OF assms] by (metis of_int_le_iff of_int_numeral of_int_power)
  then have "2 ^ 52 * ulp x \<le> of_int (rne (x / ulp x)) * ulp x"
    using ulp_pos [of x] by (simp add: mult_right_mono)
  with u r show "2 powr of_int (expo x) \<le> rnd x" by simp
  have "of_int (rne (x / ulp x)) \<le> (2 ^ 53 :: real)"
    using rnd_scaled(2) [OF assms] by (metis of_int_le_iff of_int_numeral of_int_power)
  then have "of_int (rne (x / ulp x)) * ulp x \<le> 2 ^ 53 * ulp x"
    using ulp_pos [of x] by (simp add: mult_right_mono)
  with u2 r show "rnd x \<le> 2 powr (of_int (expo x) + 1)" by simp
qed

lemma rnd_pos:
  assumes "0 < x"
  shows "0 < rnd x"
proof -
  have "(0::real) < 2 powr of_int (expo x)" by simp
  with rnd_range(1) [OF assms] show ?thesis by linarith
qed

lemma expo_mono: "0 < x \<Longrightarrow> x \<le> y \<Longrightarrow> expo x \<le> expo y"
  by (simp add: expo_def floor_mono)

lemma rnd_mono:
  assumes "0 < x" "x \<le> y"
  shows "rnd x \<le> rnd y"
proof (cases "expo x = expo y")
  case True
  then have u: "ulp x = ulp y" by (simp add: ulp_def)
  have "x / ulp y \<le> y / ulp y"
    using assms ulp_pos [of y] by (simp add: divide_right_mono)
  then have "rne (x / ulp y) \<le> rne (y / ulp y)" by (rule rne_mono)
  then have "(of_int (rne (x / ulp y)) :: real) * ulp y \<le> of_int (rne (y / ulp y)) * ulp y"
    using ulp_pos [of y] by (simp add: mult_right_mono)
  with u assms show ?thesis by (simp add: rnd_def)
next
  case False
  with expo_mono [OF assms] have "expo x + 1 \<le> expo y" by simp
  then have "(of_int (expo x) + 1 :: real) \<le> of_int (expo y)" by linarith
  then have "(2::real) powr (of_int (expo x) + 1) \<le> 2 powr of_int (expo y)"
    by (simp add: powr_mono)
  moreover have "rnd x \<le> 2 powr (of_int (expo x) + 1)"
    using assms by (intro rnd_range) 
  moreover have "2 powr of_int (expo y) \<le> rnd y"
    using assms by (intro rnd_range) simp
  ultimately show ?thesis by linarith
qed

lemma rnd_error:
  assumes "0 < x"
  shows "\<bar>rnd x - x\<bar> \<le> x / 2 ^ 53"
proof -
  let ?y = "x / ulp x"
  have r: "rnd x - x = (of_int (rne ?y) - ?y) * ulp x"
    using assms ulp_pos [of x] by (simp add: rnd_def algebra_simps)
  have "\<bar>rnd x - x\<bar> = \<bar>of_int (rne ?y) - ?y\<bar> * ulp x"
    using ulp_pos [of x] by (simp add: r abs_mult)
  also have "\<dots> \<le> 1 / 2 * ulp x"
    using rne_error [of ?y] ulp_pos [of x] by (intro mult_right_mono) simp_all
  also have "\<dots> \<le> x / 2 ^ 53"
  proof -
    have "ulp x * 2 ^ 52 \<le> x"
      using binade(1) [OF assms] by (simp add: ulp_def powr_diff)
    then show ?thesis by simp
  qed
  finally show ?thesis .
qed

lemma rnd_of_nat:
  assumes "0 < n" "n < 2 ^ 53"
  shows "rnd (real n) = real n"
proof -
  let ?e = "expo (real n)"
  have pos: "0 < real n" using assms by simp
  have lo: "0 \<le> ?e"
  proof -
    have "expo 1 \<le> ?e" using assms by (intro expo_mono) simp_all
    then show ?thesis by (simp add: expo_def)
  qed
  have hi: "?e \<le> 52"
  proof (rule ccontr)
    assume "\<not> ?e \<le> 52"
    then have "(53 :: real) \<le> of_int ?e" by linarith
    then have "(2::real) powr 53 \<le> 2 powr of_int ?e" by (intro powr_mono) simp_all
    with binade(1) [OF pos] have "(2::real) powr 53 \<le> real n" by linarith
    moreover have "(2::real) powr 53 = 2 ^ 53" by simp
    ultimately have "(2::real) ^ 53 \<le> real n" by simp
    moreover have "real n < 2 ^ 53" using assms(2) by simp
    ultimately show False by linarith
  qed
  define k where "k = nat (52 - ?e)"
  have ulp: "ulp (real n) = 1 / 2 ^ k"
  proof -
    have "of_int ?e - 52 = - real k" using lo hi by (simp add: k_def)
    then have "ulp (real n) = 2 powr (- real k)" by (simp add: ulp_def)
    then show ?thesis by (simp add: powr_minus powr_realpow inverse_eq_divide)
  qed
  have "real n / ulp (real n) = of_int (int n * 2 ^ k)"
    by (simp add: ulp)
  then have "rne (real n / ulp (real n)) = int n * 2 ^ k"
    by (simp only: rne_of_int)
  then show ?thesis
    using pos by (simp add: rnd_def ulp)
qed

lemma scale_branch:
  fixes na nb :: nat
  assumes nb: "0 < nb" "nb \<le> na" and na: "800 < na" "na < 2 ^ 53"
  defines "a \<equiv> real na" and "b \<equiv> real nb"
  defines "r \<equiv> fmul b (fdiv 800 a)"
  shows "0 < r" "r \<le> b" "nb < na \<Longrightarrow> r \<le> 800" "r \<le> 800 + 1 / 2 ^ 41"
    "\<bar>r * a - 800 * b\<bar> \<le> b / 2 ^ 41"
proof -
  define u :: real where "u = 1 / 2 ^ 53"
  define x0 where "x0 = 800 / a"
  define q where "q = rnd x0"
  define p where "p = b * q"
  have r: "r = rnd p" by (simp add: r_def fmul_def fdiv_def p_def q_def x0_def)
  have a: "800 < a" "a < 2 ^ 53" "0 < a" using na by (simp_all add: a_def)
  have b: "0 < b" "b \<le> a" "1 \<le> b" using nb by (simp_all add: a_def b_def)
  have u: "0 < u" "u \<le> 1" "a * u \<le> 1" "2400 * u \<le> 1 / 2 ^ 41" "800 * u \<le> 1"
    using a by (simp_all add: u_def field_simps)
  have x0: "0 < x0" "x0 \<le> 1" "a * x0 = 800" using a by (simp_all add: x0_def)
  have q_pos: "0 < q" using x0 by (simp add: q_def rnd_pos)
  have "rnd x0 \<le> rnd (real 1)" using x0 by (intro rnd_mono) simp_all
  then have q1: "q \<le> 1" using rnd_of_nat [of 1] by (simp add: q_def)
  have qe: "\<bar>q - x0\<bar> \<le> x0 * u"
    using rnd_error [OF x0(1)] by (simp add: q_def u_def)
  have p_pos: "0 < p" using b q_pos by (simp add: p_def)
  have pb: "p \<le> b" using b q1 by (simp add: p_def mult_left_le)
  have re: "\<bar>r - p\<bar> \<le> p * u"
    using rnd_error [OF p_pos] by (simp add: r u_def)
  show "0 < r" using p_pos by (simp add: r rnd_pos)
  have "rnd p \<le> rnd (real nb)" using p_pos pb by (intro rnd_mono) (simp_all add: b_def)
  moreover have "rnd (real nb) = real nb" using nb na by (intro rnd_of_nat) simp_all
  ultimately show rb: "r \<le> b" by (simp add: r b_def)
  have bx: "b * x0 \<le> 800"
  proof -
    have "b * x0 \<le> a * x0" using b x0 by (intro mult_right_mono) simp_all
    with x0 show ?thesis by simp
  qed
  have pe: "\<bar>p - b * x0\<bar> \<le> b * x0 * u"
  proof -
    have "\<bar>p - b * x0\<bar> = b * \<bar>q - x0\<bar>"
      using b by (simp add: p_def abs_mult right_diff_distrib [symmetric])
    also have "\<dots> \<le> b * (x0 * u)" using qe b by (intro mult_left_mono) simp_all
    finally show ?thesis by (simp add: mult.assoc)
  qed
  have bxu: "b * x0 * u \<le> 800 * u" using bx u by (intro mult_right_mono) simp_all
  have p_hi: "p \<le> 800 + 800 * u" using pe bxu bx by linarith
  have pu: "p * u \<le> 801 * u"
  proof -
    have "p \<le> 801" using p_hi u by linarith
    then show ?thesis using u by (intro mult_right_mono) simp_all
  qed
  show "r \<le> 800 + 1 / 2 ^ 41" using re pu p_hi u by linarith
  show "\<bar>r * a - 800 * b\<bar> \<le> b / 2 ^ 41"
  proof -
    have d: "\<bar>r - b * x0\<bar> \<le> p * u + b * x0 * u" using re pe by linarith
    have "p \<le> 2 * (b * x0)"
    proof -
      have "p \<le> b * x0 + b * x0 * u" using pe by linarith
      moreover have "b * x0 * u \<le> b * x0 * 1"
        using u b x0 by (intro mult_left_mono) simp_all
      ultimately show ?thesis by linarith
    qed
    then have "p * u \<le> 2 * (b * x0) * u" using u by (intro mult_right_mono) simp_all
    with d have d2: "\<bar>r - b * x0\<bar> \<le> 3 * (b * x0 * u)" by linarith
    have "r * a - 800 * b = a * (r - b * x0)"
      using x0(3) by (simp add: algebra_simps)
    then have "\<bar>r * a - 800 * b\<bar> = a * \<bar>r - b * x0\<bar>"
      using a by (simp add: abs_mult)
    also have "\<dots> \<le> a * (3 * (b * x0 * u))" using d2 a by (intro mult_left_mono) simp_all
    also have "\<dots> = b * (2400 * u)" using x0(3) by (simp add: algebra_simps)
    also have "\<dots> \<le> b * (1 / 2 ^ 41)" using u b by (intro mult_left_mono) simp_all
    finally show ?thesis by simp
  qed
  show "r \<le> 800" if "nb < na"
  proof -
    from that have "b \<le> a - 1" by (simp add: a_def b_def)
    then have "b * x0 \<le> (a - 1) * x0" using x0 by (intro mult_right_mono) simp_all
    then have bx': "b * x0 \<le> 800 - x0" using x0(3) by (simp add: algebra_simps)
    have "b * x0 * u \<le> a * x0 * u"
      using b x0 u by (intro mult_right_mono) simp_all
    also have "\<dots> = x0 * (a * u)" by simp
    also have "\<dots> \<le> x0 * 1" using u x0 by (intro mult_left_mono) simp_all
    finally have "b * x0 * u \<le> x0" by simp
    with pe bx' have "p \<le> 800" by linarith
    then have "rnd p \<le> rnd (real 800)" using p_pos by (intro rnd_mono) simp_all
    moreover have "rnd (real 800) = real 800" by (intro rnd_of_nat) simp_all
    ultimately show ?thesis by (simp add: r)
  qed
qed

lemma rnd_at:
  fixes n :: nat
  assumes "2 ^ 52 \<le> x * 2 ^ n" "x * 2 ^ n < 2 ^ 53"
  shows "rnd x = of_int (rne (x * 2 ^ n)) / 2 ^ n"
proof -
  have pos: "0 < x"
  proof (rule ccontr)
    assume "\<not> 0 < x"
    then have "x * 2 ^ n \<le> 0" by (simp add: mult_le_0_iff)
    with assms(1) show False by (smt (verit) zero_less_power)
  qed
  have e1: "(2::real) powr (52 - real n) = 2 ^ 52 / 2 ^ n"
    by (simp add: powr_diff powr_realpow)
  have e2: "(2::real) powr (52 - real n + 1) = 2 ^ 53 / 2 ^ n"
    by (simp add: powr_diff powr_add powr_realpow)
  have "2 ^ 52 / 2 ^ n \<le> x"
    using assms(1) by (simp add: pos_divide_le_eq)
  then have lo: "2 powr (52 - real n) \<le> x" by (simp only: e1)
  have "x < 2 ^ 53 / 2 ^ n"
    using assms(2) by (simp add: pos_less_divide_eq)
  then have hi: "x < 2 powr (52 - real n + 1)" by (simp only: e2)
  from lo hi have "expo x = 52 - int n"
    using floor_log_eq_powr_iff [of x 2 "52 - int n"] pos by (simp add: expo_def)
  then have "ulp x = 2 powr (- real n)" by (simp add: ulp_def)
  then have "ulp x = 1 / 2 ^ n" by (simp add: powr_minus powr_realpow inverse_eq_divide)
  with pos show ?thesis by (simp add: rnd_def)
qed

lemma rne_up: "of_int f + 1 / 2 < y \<Longrightarrow> y < of_int f + 1 \<Longrightarrow> rne y = f + 1"
proof -
  assume a: "of_int f + 1 / 2 < y" "y < of_int f + 1"
  then have "\<lfloor>y\<rfloor> = f" by (intro floor_unique) simp_all
  with a show ?thesis by (simp add: rne_def)
qed

lemma q_1060: "fdiv 800 1060 = 6797886229993202 / 2 ^ 53"
proof -
  have "rne (800 / 1060 * 2 ^ 53) = 6797886229993201 + 1"
    by (rule rne_up) simp_all
  then show ?thesis
    using rnd_at [of "800 / 1060" 53] by (simp add: fdiv_def)
qed

lemma r_1060: "fmul 1060 (fdiv 800 1060) = 800 + 1 / 2 ^ 43"
proof -
  have "rne (1060 * (6797886229993202 / 2 ^ 53) * 2 ^ 43) = 7036874417766400 + 1"
    by (rule rne_up) simp_all
  then show ?thesis
    using rnd_at [of "1060 * (6797886229993202 / 2 ^ 53)" 43] by (simp add: fmul_def q_1060)
qed

lemma unat_less_2p53: "unat (w :: 32 word) < 2 ^ 53"
proof -
  have "unat w < 2 ^ 32" using unsigned_less [of w, where ?'a = nat] by simp
  also have "(2::nat) ^ 32 < 2 ^ 53" by simp
  finally show ?thesis .
qed

text \<open>
  C9 (amended). For every image of positive width \<open>w\<close> and height \<open>h\<close> the computed
  dimensions \<open>w'\<close> and \<open>h'\<close> are positive and never larger than the input, and they are
  the input when both \<open>w \<le> 800\<close> and \<open>h \<le> 800\<close>. When \<open>w \<noteq> h\<close>, both are at most 800.
  For a square image the scaled side can exceed 800 by a rounding error; it stays below
  \<open>800 + 2^-41\<close>, and the canvas, whose size is the integer part, is at most 800 by 800.
  The aspect ratio is kept up to rounding, \<open>|w' h - h' w| \<le> min w h / 2^41\<close>, not
  exactly.
\<close>

theorem resize_bounds:
  "0 < unat imgWidth \<and> 0 < unat imgHeight \<longrightarrow>
     (let w = real (unat imgWidth); h = real (unat imgHeight);
          w' = fst (compressImage_size imgWidth imgHeight); h' = snd (compressImage_size imgWidth imgHeight)
      in 0 < w' \<and> 0 < h' \<and> w' \<le> w \<and> h' \<le> h
         \<and> (w \<le> 800 \<and> h \<le> 800 \<longrightarrow> w' = w \<and> h' = h)
         \<and> (w \<noteq> h \<longrightarrow> w' \<le> 800 \<and> h' \<le> 800)
         \<and> w' \<le> 800 + 1 / 2 ^ 41 \<and> h' \<le> 800 + 1 / 2 ^ 41
         \<and> \<bar>w' * h - h' * w\<bar> \<le> min w h / 2 ^ 41
         \<and> fst (canvasSize (compressImage_size imgWidth imgHeight)) \<le> 800
         \<and> snd (canvasSize (compressImage_size imgWidth imgHeight)) \<le> 800)"
proof (intro impI)
  assume pos: "0 < unat imgWidth \<and> 0 < unat imgHeight"
  define nw where "nw = unat imgWidth"
  define nh where "nh = unat imgHeight"
  have n: "0 < nw" "0 < nh" "nw < 2 ^ 53" "nh < 2 ^ 53"
    using pos unat_less_2p53 by (simp_all add: nw_def nh_def)
  have top: "compressImage_size imgWidth imgHeight = resizeLogic nw nh"
    by (simp add: compressImage_size_def nw_def nh_def)
  consider (wide) "nh < nw" "800 < nw" | (tall) "nw \<le> nh" "800 < nh"
    | (small) "nw \<le> 800" "nh \<le> 800"
    by linarith
  then have "0 < fst (compressImage_size imgWidth imgHeight) \<and> 0 < snd (compressImage_size imgWidth imgHeight)
      \<and> fst (compressImage_size imgWidth imgHeight) \<le> real nw
      \<and> snd (compressImage_size imgWidth imgHeight) \<le> real nh
      \<and> (real nw \<le> 800 \<and> real nh \<le> 800 \<longrightarrow>
           fst (compressImage_size imgWidth imgHeight) = real nw
           \<and> snd (compressImage_size imgWidth imgHeight) = real nh)
      \<and> (real nw \<noteq> real nh \<longrightarrow>
           fst (compressImage_size imgWidth imgHeight) \<le> 800 \<and> snd (compressImage_size imgWidth imgHeight) \<le> 800)
      \<and> fst (compressImage_size imgWidth imgHeight) \<le> 800 + 1 / 2 ^ 41
      \<and> snd (compressImage_size imgWidth imgHeight) \<le> 800 + 1 / 2 ^ 41
      \<and> \<bar>fst (compressImage_size imgWidth imgHeight) * real nh
           - snd (compressImage_size imgWidth imgHeight) * real nw\<bar> \<le> min (real nw) (real nh) / 2 ^ 41"
  proof cases
    case wide
    then have r: "compressImage_size imgWidth imgHeight = (800, fmul (real nh) (fdiv 800 (real nw)))"
      by (simp add: top resizeLogic_def Let_def)
    note s = scale_branch [of nh nw, OF n(2) _ wide(2) n(3)]
    have le: "nh \<le> nw" using wide by simp
    have "\<bar>800 * real nh - fmul (real nh) (fdiv 800 (real nw)) * real nw\<bar>
        = \<bar>fmul (real nh) (fdiv 800 (real nw)) * real nw - 800 * real nh\<bar>"
      by (rule abs_minus_commute)
    with s(1) [OF le] s(2) [OF le] s(3) [OF le wide(1)] s(4) [OF le] s(5) [OF le] wide
    show ?thesis by (simp add: r min_def)
  next
    case tall
    then have r: "compressImage_size imgWidth imgHeight = (fmul (real nw) (fdiv 800 (real nh)), 800)"
      by (simp add: top resizeLogic_def Let_def)
    note s = scale_branch [of nw nh, OF n(1) tall(1) tall(2) n(4)]
    from s(1) s(2) s(3) s(4) s(5) tall
    show ?thesis by (auto simp: r min_def)
  next
    case small
    then have r: "compressImage_size imgWidth imgHeight = (real nw, real nh)"
      by (auto simp: top resizeLogic_def Let_def)
    from small n show ?thesis by (simp add: r mult.commute)
  qed
  then have main: "0 < fst (compressImage_size imgWidth imgHeight)" "0 < snd (compressImage_size imgWidth imgHeight)"
      "fst (compressImage_size imgWidth imgHeight) \<le> real nw"
      "snd (compressImage_size imgWidth imgHeight) \<le> real nh"
      "real nw \<le> 800 \<and> real nh \<le> 800 \<longrightarrow>
           fst (compressImage_size imgWidth imgHeight) = real nw
           \<and> snd (compressImage_size imgWidth imgHeight) = real nh"
      "real nw \<noteq> real nh \<longrightarrow>
           fst (compressImage_size imgWidth imgHeight) \<le> 800 \<and> snd (compressImage_size imgWidth imgHeight) \<le> 800"
      "fst (compressImage_size imgWidth imgHeight) \<le> 800 + 1 / 2 ^ 41"
      "snd (compressImage_size imgWidth imgHeight) \<le> 800 + 1 / 2 ^ 41"
      "\<bar>fst (compressImage_size imgWidth imgHeight) * real nh
           - snd (compressImage_size imgWidth imgHeight) * real nw\<bar> \<le> min (real nw) (real nh) / 2 ^ 41"
    by blast+
  have fl: "\<And>x :: real. x \<le> 800 + 1 / 2 ^ 41 \<Longrightarrow> nat \<lfloor>x\<rfloor> \<le> 800"
  proof -
    fix x :: real assume "x \<le> 800 + 1 / 2 ^ 41"
    then have "x < 801" by simp
    then have "\<lfloor>x\<rfloor> \<le> 800" by linarith
    then show "nat \<lfloor>x\<rfloor> \<le> 800" by linarith
  qed
  have canvas: "fst (canvasSize (compressImage_size imgWidth imgHeight)) \<le> 800"
    "snd (canvasSize (compressImage_size imgWidth imgHeight)) \<le> 800"
    using fl [OF main(7)] fl [OF main(8)] by (simp_all add: canvasSize_def)
  from main canvas show "let w = real (unat imgWidth); h = real (unat imgHeight);
          w' = fst (compressImage_size imgWidth imgHeight); h' = snd (compressImage_size imgWidth imgHeight)
      in 0 < w' \<and> 0 < h' \<and> w' \<le> w \<and> h' \<le> h
         \<and> (w \<le> 800 \<and> h \<le> 800 \<longrightarrow> w' = w \<and> h' = h)
         \<and> (w \<noteq> h \<longrightarrow> w' \<le> 800 \<and> h' \<le> 800)
         \<and> w' \<le> 800 + 1 / 2 ^ 41 \<and> h' \<le> 800 + 1 / 2 ^ 41
         \<and> \<bar>w' * h - h' * w\<bar> \<le> min w h / 2 ^ 41
         \<and> fst (canvasSize (compressImage_size imgWidth imgHeight)) \<le> 800
         \<and> snd (canvasSize (compressImage_size imgWidth imgHeight)) \<le> 800"
    unfolding Let_def nw_def nh_def by blast
qed

theorem resize_bounds_witness:
  "(0 < unat (1600 :: 32 word) \<and> 0 < unat (1200 :: 32 word))
   \<and> fst (compressImage_size 1600 1200) \<le> 800
   \<and> snd (compressImage_size 1600 1200) \<le> 800
   \<and> snd (compressImage_size 1600 1200) \<le> 1200
   \<and> fst (canvasSize (compressImage_size 1600 1200)) \<le> 800
   \<and> (0 < unat (640 :: 32 word) \<and> 0 < unat (480 :: 32 word))
   \<and> fst (compressImage_size 640 480) = 640
   \<and> snd (compressImage_size 640 480) = 480"
  using resize_bounds [of 1600 1200] resize_bounds [of 640 480]
  by (simp add: Let_def)

text \<open>
  The claim as first stated bounds both dimensions by 800 and keeps the ratio exactly.
  For an image of 1060 by 1060 the quotient \<^verbatim>\<open>800 / 1060\<close> is rounded up, and the
  product with 1060 is rounded up again to the next value above 800.
\<close>

theorem resize_square_counterexample:
  "compressImage_size 1060 1060 = (800 + 1 / 2 ^ 43, 800)
   \<and> \<not> fst (compressImage_size 1060 1060) \<le> 800
   \<and> fst (compressImage_size 1060 1060) * real (unat (1060 :: 32 word))
       \<noteq> snd (compressImage_size 1060 1060) * real (unat (1060 :: 32 word))"
  by (simp add: compressImage_size_def resizeLogic_def r_1060)

end
